theory Spec2Isabelle
  imports Complex_Main "HOL-Library.Word"
begin

unbundle bit_operations_syntax

section \<open>Geometry\<close>

text \<open>
  Coordinates are the C type \<^verbatim>\<open>float\<close> in the sources.  They are modelled as real
  numbers: every comparison and every arithmetic operation of the code is kept; infinities
  and NaN are not represented.  The rounding of float arithmetic is represented where the
  code tests computed rectangles for equality (marking views as needing display, and
  display): there the rectangle functions are used in the form \<open>NSIntersectionRect_fl\<close> and
  \<open>NSUnionRect_fl\<close> below, which takes the rounding as a parameter.

  \<^verbatim>\<open>NSPoint\<close>, \<^verbatim>\<open>NSSize\<close> and \<^verbatim>\<open>NSRect\<close> and the functions on them come from the Foundation
  library (\<^verbatim>\<open>NSGeometry.h\<close>), which the view code includes; they are written here as that
  header defines them.
\<close>

record NSPoint =
  point_x :: real
  point_y :: real

record NSSize =
  width :: real
  height :: real

record NSRect =
  origin_x :: real
  origin_y :: real
  size_width :: real
  size_height :: real

definition NSMakePoint :: "real \<Rightarrow> real \<Rightarrow> NSPoint" where
  "NSMakePoint px py = \<lparr>point_x = px, point_y = py\<rparr>"

definition NSMakeSize :: "real \<Rightarrow> real \<Rightarrow> NSSize" where
  "NSMakeSize w h = \<lparr>width = w, height = h\<rparr>"

definition NSMakeRect :: "real \<Rightarrow> real \<Rightarrow> real \<Rightarrow> real \<Rightarrow> NSRect" where
  "NSMakeRect px py w h = \<lparr>origin_x = px, origin_y = py, size_width = w, size_height = h\<rparr>"

definition NSZeroRect :: NSRect where
  "NSZeroRect = NSMakeRect 0 0 0 0"

definition NSZeroPoint :: NSPoint where
  "NSZeroPoint = NSMakePoint 0 0"

definition rect_origin :: "NSRect \<Rightarrow> NSPoint" where
  "rect_origin r = NSMakePoint (origin_x r) (origin_y r)"

definition rect_size :: "NSRect \<Rightarrow> NSSize" where
  "rect_size r = NSMakeSize (size_width r) (size_height r)"

definition NSMinX :: "NSRect \<Rightarrow> real" where "NSMinX r = origin_x r"
definition NSMinY :: "NSRect \<Rightarrow> real" where "NSMinY r = origin_y r"
definition NSMaxX :: "NSRect \<Rightarrow> real" where "NSMaxX r = origin_x r + size_width r"
definition NSMaxY :: "NSRect \<Rightarrow> real" where "NSMaxY r = origin_y r + size_height r"
definition NSWidth :: "NSRect \<Rightarrow> real" where "NSWidth r = size_width r"
definition NSHeight :: "NSRect \<Rightarrow> real" where "NSHeight r = size_height r"

definition NSIsEmptyRect :: "NSRect \<Rightarrow> bool" where
  "NSIsEmptyRect r \<longleftrightarrow> \<not> (NSWidth r > 0 \<and> NSHeight r > 0)"

definition NSEqualRects :: "NSRect \<Rightarrow> NSRect \<Rightarrow> bool" where
  "NSEqualRects a b \<longleftrightarrow>
     NSMinX a = NSMinX b \<and> NSMinY a = NSMinY b \<and> NSWidth a = NSWidth b \<and> NSHeight a = NSHeight b"

definition NSIntersectionRect :: "NSRect \<Rightarrow> NSRect \<Rightarrow> NSRect" where
  "NSIntersectionRect a b =
     (if NSMaxX a \<le> NSMinX b \<or> NSMaxX b \<le> NSMinX a \<or> NSMaxY a \<le> NSMinY b \<or> NSMaxY b \<le> NSMinY a
      then NSMakeRect 0 0 0 0
      else
        let ox = (if NSMinX a \<le> NSMinX b then origin_x b else origin_x a);
            oy = (if NSMinY a \<le> NSMinY b then origin_y b else origin_y a);
            w = (if NSMaxX a \<ge> NSMaxX b then NSMaxX b - ox else NSMaxX a - ox);
            h = (if NSMaxY a \<ge> NSMaxY b then NSMaxY b - oy else NSMaxY a - oy)
        in NSMakeRect ox oy w h)"

definition NSUnionRect :: "NSRect \<Rightarrow> NSRect \<Rightarrow> NSRect" where
  "NSUnionRect a b =
     (if NSIsEmptyRect a \<and> NSIsEmptyRect b then NSMakeRect 0 0 0 0
      else if NSIsEmptyRect a then b
      else if NSIsEmptyRect b then a
      else
        let ox = min (NSMinX a) (NSMinX b);
            oy = min (NSMinY a) (NSMinY b)
        in NSMakeRect ox oy (max (NSMaxX a) (NSMaxX b) - ox) (max (NSMaxY a) (NSMaxY b) - oy))"

text \<open>
  The same functions with the rounding of the float operations made explicit.  The
  parameter \<open>fl\<close> is the rounding function of the arithmetic: the value of a float addition
  or subtraction is \<open>fl\<close> of the exact sum or difference.  Comparisons, \<^verbatim>\<open>MIN\<close> and \<^verbatim>\<open>MAX\<close>
  do not round.  What is proved for every \<open>fl\<close> holds whatever the rounding is; with the
  identity for \<open>fl\<close> the functions are the exact ones above.
\<close>

definition NSMaxX_fl :: "(real \<Rightarrow> real) \<Rightarrow> NSRect \<Rightarrow> real" where
  "NSMaxX_fl fl r = fl (origin_x r + size_width r)"

definition NSMaxY_fl :: "(real \<Rightarrow> real) \<Rightarrow> NSRect \<Rightarrow> real" where
  "NSMaxY_fl fl r = fl (origin_y r + size_height r)"

definition NSIntersectionRect_fl :: "(real \<Rightarrow> real) \<Rightarrow> NSRect \<Rightarrow> NSRect \<Rightarrow> NSRect" where
  "NSIntersectionRect_fl fl a b =
     (if NSMaxX_fl fl a \<le> NSMinX b \<or> NSMaxX_fl fl b \<le> NSMinX a
         \<or> NSMaxY_fl fl a \<le> NSMinY b \<or> NSMaxY_fl fl b \<le> NSMinY a
      then NSMakeRect 0 0 0 0
      else
        let ox = (if NSMinX a \<le> NSMinX b then origin_x b else origin_x a);
            oy = (if NSMinY a \<le> NSMinY b then origin_y b else origin_y a);
            w = (if NSMaxX_fl fl a \<ge> NSMaxX_fl fl b
                 then fl (NSMaxX_fl fl b - ox) else fl (NSMaxX_fl fl a - ox));
            h = (if NSMaxY_fl fl a \<ge> NSMaxY_fl fl b
                 then fl (NSMaxY_fl fl b - oy) else fl (NSMaxY_fl fl a - oy))
        in NSMakeRect ox oy w h)"

definition NSUnionRect_fl :: "(real \<Rightarrow> real) \<Rightarrow> NSRect \<Rightarrow> NSRect \<Rightarrow> NSRect" where
  "NSUnionRect_fl fl a b =
     (if NSIsEmptyRect a \<and> NSIsEmptyRect b then NSMakeRect 0 0 0 0
      else if NSIsEmptyRect a then b
      else if NSIsEmptyRect b then a
      else
        let ox = min (NSMinX a) (NSMinX b);
            oy = min (NSMinY a) (NSMinY b)
        in NSMakeRect ox oy (fl (max (NSMaxX_fl fl a) (NSMaxX_fl fl b) - ox))
             (fl (max (NSMaxY_fl fl a) (NSMaxY_fl fl b) - oy)))"

text \<open>Exact arithmetic: no rounding.\<close>

definition exact :: "real \<Rightarrow> real" where
  "exact x = x"

text \<open>The points of a rectangle, for stating containment.\<close>

definition rect_contains :: "NSRect \<Rightarrow> NSRect \<Rightarrow> bool" where
  "rect_contains outer inner \<longleftrightarrow>
     NSMinX outer \<le> NSMinX inner \<and> NSMinY outer \<le> NSMinY inner \<and>
     NSMaxX inner \<le> NSMaxX outer \<and> NSMaxY inner \<le> NSMaxY outer"

text \<open>
  The negative-size clamp that \<^verbatim>\<open>-[NSView initWithFrame:]\<close> and
  \<^verbatim>\<open>-[NSView setFrame:]\<close> apply to their argument before storing it.
\<close>

definition clamp_size :: "NSRect \<Rightarrow> NSRect" where
  "clamp_size frameRect =
     (let r1 = (if size_width frameRect < 0 then frameRect\<lparr>size_width := 0\<rparr> else frameRect);
          r2 = (if size_height r1 < 0 then r1\<lparr>size_height := 0\<rparr> else r1)
      in r2)"

section \<open>Affine transforms\<close>

text \<open>
  Modelled from the spec: the class \<^verbatim>\<open>NSAffineTransform\<close> is not among the sources.  An
  affine transform is six scalars forming a 2D affine map; \<open>prependTransform\<close> composes so
  that the argument is applied first; \<open>invert\<close> is the exact inverse of an invertible
  transform (a transform of determinant 0, which has none, is left as it is); the frame
  matrix is a translation to the frame origin and the bounds matrix a scale and a
  translation.  Rotation is not part of the model: no operation below rotates a matrix.
\<close>

record NSAffineTransform =
  m11 :: real
  m12 :: real
  m21 :: real
  m22 :: real
  tX :: real
  tY :: real

definition makeIdentityMatrix :: NSAffineTransform where
  "makeIdentityMatrix = \<lparr>m11 = 1, m12 = 0, m21 = 0, m22 = 1, tX = 0, tY = 0\<rparr>"

definition pointInMatrixSpace :: "NSAffineTransform \<Rightarrow> NSPoint \<Rightarrow> NSPoint" where
  "pointInMatrixSpace t p =
     NSMakePoint (m11 t * point_x p + m21 t * point_y p + tX t)
                 (m12 t * point_x p + m22 t * point_y p + tY t)"

definition prependTransform :: "NSAffineTransform \<Rightarrow> NSAffineTransform \<Rightarrow> NSAffineTransform" where
  "prependTransform self other =
     \<lparr>m11 = m11 other * m11 self + m12 other * m21 self,
      m12 = m11 other * m12 self + m12 other * m22 self,
      m21 = m21 other * m11 self + m22 other * m21 self,
      m22 = m21 other * m12 self + m22 other * m22 self,
      tX = tX other * m11 self + tY other * m21 self + tX self,
      tY = tX other * m12 self + tY other * m22 self + tY self\<rparr>"

definition determinant :: "NSAffineTransform \<Rightarrow> real" where
  "determinant t = m11 t * m22 t - m12 t * m21 t"

definition invert :: "NSAffineTransform \<Rightarrow> NSAffineTransform" where
  "invert t =
     (let det = determinant t in
      if det = 0 then t
      else \<lparr>m11 = m22 t / det, m12 = - m12 t / det, m21 = - m21 t / det, m22 = m11 t / det,
            tX = (m21 t * tY t - m22 t * tX t) / det,
            tY = (m12 t * tX t - m11 t * tY t) / det\<rparr>)"

definition translateToPoint :: "NSAffineTransform \<Rightarrow> NSPoint \<Rightarrow> NSAffineTransform" where
  "translateToPoint t p =
     t\<lparr>tX := point_x p * m11 t + point_y p * m21 t + tX t,
       tY := point_x p * m12 t + point_y p * m22 t + tY t\<rparr>"

definition setFrameOrigin_matrix :: "NSAffineTransform \<Rightarrow> NSPoint \<Rightarrow> NSAffineTransform" where
  "setFrameOrigin_matrix t p = translateToPoint t (NSMakePoint (point_x p - tX t) (point_y p - tY t))"

definition scaleTo :: "NSAffineTransform \<Rightarrow> real \<Rightarrow> real \<Rightarrow> NSAffineTransform" where
  "scaleTo t sx sy = t\<lparr>m11 := sx, m12 := 0, m21 := 0, m22 := sy\<rparr>"

definition isRotated :: "NSAffineTransform \<Rightarrow> bool" where
  "isRotated t \<longleftrightarrow> m12 t \<noteq> 0 \<or> m21 t \<noteq> 0"

text \<open>The bounding box of four points, as the C helper of the view code computes it.\<close>

definition bounding_box :: "NSPoint \<Rightarrow> NSPoint \<Rightarrow> NSPoint \<Rightarrow> NSPoint \<Rightarrow> NSRect" where
  "bounding_box p0 p1 p2 p3 =
     (let min_x = min (min (min (point_x p0) (point_x p1)) (point_x p2)) (point_x p3);
          min_y = min (min (min (point_y p0) (point_y p1)) (point_y p2)) (point_y p3);
          max_x = max (max (max (point_x p0) (point_x p1)) (point_x p2)) (point_x p3);
          max_y = max (max (max (point_y p0) (point_y p1)) (point_y p2)) (point_y p3)
      in NSMakeRect min_x min_y (max_x - min_x) (max_y - min_y))"

definition rect_corners :: "NSRect \<Rightarrow> NSPoint \<times> NSPoint \<times> NSPoint \<times> NSPoint" where
  "rect_corners aRect =
     (NSMakePoint (origin_x aRect) (origin_y aRect),
      NSMakePoint (origin_x aRect + size_width aRect) (origin_y aRect),
      NSMakePoint (origin_x aRect) (origin_y aRect + size_height aRect),
      NSMakePoint (origin_x aRect + size_width aRect) (origin_y aRect + size_height aRect))"

definition boundingRectFor :: "NSAffineTransform \<Rightarrow> NSRect \<Rightarrow> NSRect" where
  "boundingRectFor t aRect =
     (case rect_corners aRect of (p0, p1, p2, p3) \<Rightarrow>
        bounding_box (pointInMatrixSpace t p0) (pointInMatrixSpace t p1)
                     (pointInMatrixSpace t p2) (pointInMatrixSpace t p3))"

text \<open>
  \<^verbatim>\<open>convert_rect_using_matrices\<close>, the static helper of the view code: the four corners of
  the rectangle are mapped through both matrices and the bounding box is returned.
\<close>

definition convert_rect_using_matrices ::
  "NSRect \<Rightarrow> NSAffineTransform \<Rightarrow> NSAffineTransform \<Rightarrow> NSRect" where
  "convert_rect_using_matrices aRect matrix1 matrix2 =
     (case rect_corners aRect of (p0, p1, p2, p3) \<Rightarrow>
        bounding_box (pointInMatrixSpace matrix2 (pointInMatrixSpace matrix1 p0))
                     (pointInMatrixSpace matrix2 (pointInMatrixSpace matrix1 p1))
                     (pointInMatrixSpace matrix2 (pointInMatrixSpace matrix1 p2))
                     (pointInMatrixSpace matrix2 (pointInMatrixSpace matrix1 p3)))"

section \<open>Views, windows and the state of the program\<close>

text \<open>
  Objects are referred to by identifiers; a \<^verbatim>\<open>nil\<close> reference is \<open>None\<close>.  A view record
  holds the instance variables of \<^verbatim>\<open>NSView\<close> that the modelled methods use, under their
  source names without the leading underscore (\<open>_ivar\<close> is appended where a method has the
  same name).  The results of the methods that subclasses override (\<^verbatim>\<open>isOpaque\<close>,
  \<^verbatim>\<open>isFlipped\<close>, \<^verbatim>\<open>acceptsFirstResponder\<close>) are fields too, and so is the next responder
  that \<^verbatim>\<open>NSResponder\<close> keeps (it is only ever set to a view or to \<^verbatim>\<open>nil\<close> here).  The
  graphics-state handle (\<^verbatim>\<open>_gstate\<close>) is not modelled.
\<close>

type_synonym vid = nat
type_synonym wid = nat

text \<open>\<^verbatim>\<open>NSTrackingRectTag\<close> is the C type \<^verbatim>\<open>int\<close>: a 32-bit word read as signed.\<close>

record GSTrackingRect =
  rectangle :: NSRect
  tr_tag :: "32 word"
  owner :: nat
  user_data :: nat
  inside :: bool

record rFlags =
  flipped_view :: bool
  has_subviews :: bool
  has_currects :: bool
  has_trkrects :: bool
  has_draginfo :: bool
  needs_display :: bool
  valid_rects :: bool

record NSView =
  frame :: NSRect
  bounds :: NSRect
  frameMatrix :: NSAffineTransform
  boundsMatrix :: NSAffineTransform
  matrixToWindow_ivar :: NSAffineTransform
  matrixFromWindow_ivar :: NSAffineTransform
  super_view :: "vid option"
  sub_views :: "vid list"
  window :: "wid option"
  tracking_rects :: "GSTrackingRect list"
  cursor_rects :: "GSTrackingRect list"
  is_rotated_from_base :: bool
  is_rotated_or_scaled_from_base :: bool
  post_frame_changes :: bool
  post_bounds_changes :: bool
  autoresizes_subviews :: bool
  autoresizingMask :: "32 word"
  coordinates_valid :: bool
  is_hidden :: bool
  visibleRect_ivar :: NSRect
  invalidRect :: NSRect
  rFlags :: rFlags
  nextKeyView_ivar :: "vid option list option"
  previousKeyView_ivar :: "vid option list option"
  isOpaque :: bool
  isFlipped :: bool
  acceptsFirstResponder :: bool
  next_responder :: "vid option"

text \<open>
  The window class is not among the sources.  A window record holds what the view code
  reads from its window; the messages the view code sends to its window, to the
  notification centre, to the log and to the graphics context are recorded, in order, in
  the trace of the state.
\<close>

datatype responder = NoResponder | WindowResponder wid | ViewResponder vid

record NSWindow =
  contentView :: "vid option"
  firstResponder :: responder
  gState :: int
  windowNumber :: int

datatype event =
    NSWarnMLog string
  | PostNotification string vid
  | InvalidateCursorRectsForView wid vid
  | SetViewsNeedDisplay wid bool
  | MakeFirstResponder wid
  | RemoveDragTypes wid vid
  | AddDragTypes wid vid
  | DisableFlushWindow wid
  | EnableFlushWindow wid
  | FlushWindowIfNeeded wid
  | LockFocusInRect vid NSRect
  | DrawRect vid NSRect
  | UnlockFocusNeedsFlush vid bool

record world =
  views :: "vid \<Rightarrow> NSView"
  windows :: "wid \<Rightarrow> NSWindow"
  trace :: "event list"

definition upd_view :: "vid \<Rightarrow> (NSView \<Rightarrow> NSView) \<Rightarrow> world \<Rightarrow> world" where
  "upd_view v f w = w\<lparr>views := (views w)(v := f (views w v))\<rparr>"

definition emit :: "event \<Rightarrow> world \<Rightarrow> world" where
  "emit e w = w\<lparr>trace := trace w @ [e]\<rparr>"

text \<open>A message to the window of a view; a message to \<^verbatim>\<open>nil\<close> does nothing.\<close>

definition to_window :: "world \<Rightarrow> vid \<Rightarrow> (wid \<Rightarrow> event) \<Rightarrow> world" where
  "to_window w self msg = (case window (views w self) of None \<Rightarrow> w | Some win \<Rightarrow> emit (msg win) w)"

definition set_needs_display :: "bool \<Rightarrow> NSView \<Rightarrow> NSView" where
  "set_needs_display b v = v\<lparr>rFlags := (rFlags v)\<lparr>needs_display := b\<rparr>\<rparr>"

definition set_has_subviews :: "bool \<Rightarrow> NSView \<Rightarrow> NSView" where
  "set_has_subviews b v = v\<lparr>rFlags := (rFlags v)\<lparr>has_subviews := b\<rparr>\<rparr>"

text \<open>
  Exceptions, and the outcome of a call.  A raised exception carries the state in which
  it was raised: what the method had changed before raising stays changed.  Methods that
  call themselves (down the subviews, up the superviews, along the key view chain) take a
  bound on the depth of the calls, and \<open>OutOfFuel\<close> is the outcome of a call that needs
  more.
\<close>

datatype exn = NSInvalidArgumentException | NSInternalInconsistencyException

datatype 'a result = Return 'a | Raise exn world | OutOfFuel

definition rbind :: "'a result \<Rightarrow> ('a \<Rightarrow> 'b result) \<Rightarrow> 'b result" where
  "rbind m f = (case m of Return a \<Rightarrow> f a | Raise e w \<Rightarrow> Raise e w | OutOfFuel \<Rightarrow> OutOfFuel)"

text \<open>
  A state with no objects: every identifier stands for zeroed memory.  It is the state the
  example states of the properties are built from, by the methods of the model.
\<close>

definition zero_matrix :: NSAffineTransform where
  "zero_matrix = \<lparr>m11 = 0, m12 = 0, m21 = 0, m22 = 0, tX = 0, tY = 0\<rparr>"

definition new_rFlags :: rFlags where
  "new_rFlags = \<lparr>flipped_view = False, has_subviews = False, has_currects = False,
     has_trkrects = False, has_draginfo = False, needs_display = False, valid_rects = False\<rparr>"

definition blank_view :: NSView where
  "blank_view =
     \<lparr>frame = NSZeroRect, bounds = NSZeroRect, frameMatrix = zero_matrix,
      boundsMatrix = zero_matrix, matrixToWindow_ivar = zero_matrix,
      matrixFromWindow_ivar = zero_matrix, super_view = None, sub_views = [], window = None,
      tracking_rects = [], cursor_rects = [], is_rotated_from_base = False,
      is_rotated_or_scaled_from_base = False, post_frame_changes = False,
      post_bounds_changes = False, autoresizes_subviews = False, autoresizingMask = 0,
      coordinates_valid = False, is_hidden = False, visibleRect_ivar = NSZeroRect,
      invalidRect = NSZeroRect, rFlags = new_rFlags, nextKeyView_ivar = None,
      previousKeyView_ivar = None, isOpaque = False, isFlipped = False,
      acceptsFirstResponder = False, next_responder = None\<rparr>"

definition blank_window :: NSWindow where
  "blank_window = \<lparr>contentView = None, firstResponder = NoResponder, gState = 0, windowNumber = 0\<rparr>"

definition empty_world :: world where
  "empty_world = \<lparr>views = (\<lambda>_. blank_view), windows = (\<lambda>_. blank_window), trace = []\<rparr>"

text \<open>\<^verbatim>\<open>-initWithFrame:\<close>, for a new object \<open>self\<close> of a class with the given method results.\<close>

definition warn_negative :: "NSRect \<Rightarrow> world \<Rightarrow> world" where
  "warn_negative frameRect w =
     (let w1 = (if size_width frameRect < 0 then emit (NSWarnMLog ''given negative width'') w else w);
          w2 = (if size_height frameRect < 0 then emit (NSWarnMLog ''given negative height'') w1 else w1)
      in w2)"

definition initWithFrame :: "world \<Rightarrow> vid \<Rightarrow> bool \<Rightarrow> bool \<Rightarrow> bool \<Rightarrow> NSRect \<Rightarrow> world" where
  "initWithFrame w self opaque flipped accepts frameRect0 =
     (let w1 = warn_negative frameRect0 w;
          frameRect = clamp_size frameRect0
      in upd_view self (\<lambda>_.
           \<lparr>frame = frameRect,
            bounds = NSMakeRect 0 0 (size_width frameRect) (size_height frameRect),
            frameMatrix = setFrameOrigin_matrix makeIdentityMatrix (rect_origin frameRect),
            boundsMatrix = makeIdentityMatrix,
            matrixToWindow_ivar = makeIdentityMatrix,
            matrixFromWindow_ivar = makeIdentityMatrix,
            super_view = None,
            sub_views = [],
            window = None,
            tracking_rects = [],
            cursor_rects = [],
            is_rotated_from_base = False,
            is_rotated_or_scaled_from_base = False,
            post_frame_changes = False,
            post_bounds_changes = False,
            autoresizes_subviews = True,
            autoresizingMask = 0,
            coordinates_valid = False,
            is_hidden = False,
            visibleRect_ivar = NSZeroRect,
            invalidRect = NSZeroRect,
            rFlags = new_rFlags\<lparr>needs_display := True, flipped_view := flipped\<rparr>,
            nextKeyView_ivar = None,
            previousKeyView_ivar = None,
            isOpaque = opaque,
            isFlipped = flipped,
            acceptsFirstResponder = accepts,
            next_responder = None\<rparr>) w1)"

section \<open>Invalidating the cached coordinates, and the frame and bounds setters\<close>

text \<open>
  \<^verbatim>\<open>-_invalidateCoordinates\<close>.  The loop runs over a copy of the subview array, taken
  before the first call.
\<close>

fun invalidateCoordinates :: "nat \<Rightarrow> world \<Rightarrow> vid \<Rightarrow> world result"
and invalidateCoordinates_subs :: "nat \<Rightarrow> world \<Rightarrow> vid list \<Rightarrow> world result" where
  "invalidateCoordinates 0 w self = OutOfFuel"
| "invalidateCoordinates (Suc n) w self =
     (if coordinates_valid (views w self) then
        let w1 = upd_view self (\<lambda>v. v\<lparr>coordinates_valid := False\<rparr>) w;
            w2 = (if valid_rects (rFlags (views w1 self))
                  then to_window w1 self (\<lambda>win. InvalidateCursorRectsForView win self) else w1)
        in if has_subviews (rFlags (views w2 self))
           then invalidateCoordinates_subs n w2 (sub_views (views w2 self))
           else Return w2
      else Return w)"
| "invalidateCoordinates_subs n w [] = Return w"
| "invalidateCoordinates_subs n w (sub # subs) =
     rbind (if coordinates_valid (views w sub) then invalidateCoordinates n w sub else Return w)
       (\<lambda>w'. invalidateCoordinates_subs n w' subs)"

text \<open>The guarded call \<^verbatim>\<open>if (_coordinates_valid) (*invalidateImp)(self, invalidateSel)\<close>.\<close>

definition invalidate_if_valid :: "nat \<Rightarrow> world \<Rightarrow> vid \<Rightarrow> world result" where
  "invalidate_if_valid n w self =
     (if coordinates_valid (views w self) then invalidateCoordinates n w self else Return w)"

definition FLT_MAX :: real where
  "FLT_MAX = (2 - 1 / 2 ^ 23) * 2 ^ 127"

text \<open>\<^verbatim>\<open>-_updateBoundsMatrix\<close>.\<close>

definition updateBoundsMatrix :: "NSView \<Rightarrow> NSView" where
  "updateBoundsMatrix v =
     (let sx = (if size_width (bounds v) = 0
                then (if size_width (frame v) = 0 then 1 else FLT_MAX)
                else size_width (frame v) / size_width (bounds v));
          sy = (if size_height (bounds v) = 0
                then (if size_height (frame v) = 0 then 1 else FLT_MAX)
                else size_height (frame v) / size_height (bounds v));
          v1 = v\<lparr>boundsMatrix := scaleTo (boundsMatrix v) sx sy\<rparr>
      in if sx \<noteq> 1 \<or> sy \<noteq> 1 then v1\<lparr>is_rotated_or_scaled_from_base := True\<rparr> else v1)"

text \<open>
  The autoresizing amask bits are declared in \<^verbatim>\<open>AppKit/NSView.h\<close>, which is not among the
  sources; they have their AppKit values.
\<close>

definition NSViewNotSizable :: "32 word" where "NSViewNotSizable = 0"
definition NSViewMinXMargin :: "32 word" where "NSViewMinXMargin = 1"
definition NSViewWidthSizable :: "32 word" where "NSViewWidthSizable = 2"
definition NSViewMaxXMargin :: "32 word" where "NSViewMaxXMargin = 4"
definition NSViewMinYMargin :: "32 word" where "NSViewMinYMargin = 8"
definition NSViewHeightSizable :: "32 word" where "NSViewHeightSizable = 16"
definition NSViewMaxYMargin :: "32 word" where "NSViewMaxYMargin = 32"

definition count_options :: "32 word \<Rightarrow> 32 word \<Rightarrow> 32 word \<Rightarrow> 32 word \<Rightarrow> nat" where
  "count_options amask a b c =
     (if amask AND a \<noteq> 0 then 1 else 0) + (if amask AND b \<noteq> 0 then 1 else 0)
       + (if amask AND c \<noteq> 0 then 1 else 0)"

text \<open>
  The frame that \<^verbatim>\<open>-resizeWithOldSuperviewSize:\<close> computes and passes to
  \<^verbatim>\<open>setFrame:\<close>; \<open>None\<close> when the method returns at once (the amask is
  \<^verbatim>\<open>NSViewNotSizable\<close>).
\<close>

definition resized_frame :: "world \<Rightarrow> vid \<Rightarrow> NSSize \<Rightarrow> NSRect option" where
  "resized_frame w self oldSize =
     (let v = views w self; amask = autoresizingMask v in
      if amask = NSViewNotSizable then None
      else
        let superViewFrameSize =
              (case super_view v of None \<Rightarrow> NSMakeSize 0 0
               | Some s \<Rightarrow> rect_size (frame (views w s)));
            newFrame = frame v;
            xoptions = count_options amask NSViewWidthSizable NSViewMinXMargin NSViewMaxXMargin;
            newFrame1 =
              (if xoptions > 0 then
                 let change = width superViewFrameSize - width oldSize;
                     changePerOption = change / real xoptions;
                     f1 = (if amask AND NSViewWidthSizable \<noteq> 0
                           then newFrame\<lparr>size_width := size_width newFrame + changePerOption\<rparr>
                           else newFrame);
                     f2 = (if amask AND NSViewMinXMargin \<noteq> 0
                           then f1\<lparr>origin_x := origin_x f1 + changePerOption\<rparr>
                           else f1)
                 in f2
               else newFrame);
            yoptions = count_options amask NSViewHeightSizable NSViewMinYMargin NSViewMaxYMargin;
            newFrame2 =
              (if yoptions > 0 then
                 let change = height superViewFrameSize - height oldSize;
                     changePerOption = change / real yoptions;
                     f1 = (if amask AND NSViewHeightSizable \<noteq> 0
                           then newFrame1\<lparr>size_height := size_height newFrame1 + changePerOption\<rparr>
                           else newFrame1);
                     f2 = (if amask AND (NSViewMaxYMargin OR NSViewMinYMargin) \<noteq> 0 then
                             (if (case super_view v of None \<Rightarrow> False
                                  | Some s \<Rightarrow> flipped_view (rFlags (views w s)))
                              then (if amask AND NSViewMaxYMargin \<noteq> 0
                                    then f1\<lparr>origin_y := origin_y f1 + changePerOption\<rparr> else f1)
                              else (if amask AND NSViewMinYMargin \<noteq> 0
                                    then f1\<lparr>origin_y := origin_y f1 + changePerOption\<rparr> else f1))
                           else f1)
                 in f2
               else newFrame1)
        in Some newFrame2)"

text \<open>
  \<^verbatim>\<open>-setFrame:\<close>, \<^verbatim>\<open>-resizeSubviewsWithOldSize:\<close> and \<^verbatim>\<open>-resizeWithOldSuperviewSize:\<close>
  call one another down the subviews.
\<close>

definition setFrame_store :: "NSRect \<Rightarrow> NSView \<Rightarrow> NSView" where
  "setFrame_store frameRect v =
     (let changedOrigin = (NSMinX (frame v) \<noteq> NSMinX frameRect \<or> NSMinY (frame v) \<noteq> NSMinY frameRect);
          changedSize = (NSWidth (frame v) \<noteq> NSWidth frameRect \<or> NSHeight (frame v) \<noteq> NSHeight frameRect);
          v1 = v\<lparr>frame := frameRect,
                 bounds := (bounds v)\<lparr>size_width := size_width frameRect,
                                     size_height := size_height frameRect\<rparr>\<rparr>;
          v2 = (if changedOrigin
                then v1\<lparr>frameMatrix := setFrameOrigin_matrix (frameMatrix v1) (rect_origin (frame v1))\<rparr>
                else v1);
          v3 = (if changedSize \<and> is_rotated_or_scaled_from_base v2 then updateBoundsMatrix v2 else v2)
      in v3)"

definition frame_changed :: "NSView \<Rightarrow> NSRect \<Rightarrow> bool" where
  "frame_changed v frameRect \<longleftrightarrow>
     (NSWidth (frame v) \<noteq> NSWidth frameRect \<or> NSHeight (frame v) \<noteq> NSHeight frameRect)
     \<or> (NSMinX (frame v) \<noteq> NSMinX frameRect \<or> NSMinY (frame v) \<noteq> NSMinY frameRect)"

definition post_frame_changed :: "world \<Rightarrow> vid \<Rightarrow> world" where
  "post_frame_changed w self =
     (if post_frame_changes (views w self)
      then emit (PostNotification ''NSViewFrameDidChangeNotification'' self) w else w)"

definition post_bounds_changed :: "world \<Rightarrow> vid \<Rightarrow> world" where
  "post_bounds_changed w self =
     (if post_bounds_changes (views w self)
      then emit (PostNotification ''NSViewBoundsDidChangeNotification'' self) w else w)"

fun setFrame :: "nat \<Rightarrow> world \<Rightarrow> vid \<Rightarrow> NSRect \<Rightarrow> world result"
and resizeSubviewsWithOldSize :: "nat \<Rightarrow> world \<Rightarrow> vid \<Rightarrow> NSSize \<Rightarrow> world result"
and resizeSubviews_loop :: "nat \<Rightarrow> world \<Rightarrow> NSSize \<Rightarrow> vid list \<Rightarrow> world result"
and resizeWithOldSuperviewSize :: "nat \<Rightarrow> world \<Rightarrow> vid \<Rightarrow> NSSize \<Rightarrow> world result" where
  "setFrame 0 w self frameRect0 = OutOfFuel"
| "setFrame (Suc n) w self frameRect0 =
     (let old_size = rect_size (frame (views w self));
          w0 = warn_negative frameRect0 w;
          frameRect = clamp_size frameRect0;
          changed = frame_changed (views w0 self) frameRect;
          w1 = upd_view self (setFrame_store frameRect) w0
      in if changed then
           rbind (invalidate_if_valid n w1 self) (\<lambda>w2.
           rbind (resizeSubviewsWithOldSize n w2 self old_size) (\<lambda>w3.
           Return (post_frame_changed w3 self)))
         else Return w1)"
| "resizeSubviewsWithOldSize n w self oldSize =
     (if has_subviews (rFlags (views w self)) then
        (if \<not> autoresizes_subviews (views w self) \<or> is_rotated_from_base (views w self)
         then Return w
         else resizeSubviews_loop n w oldSize (sub_views (views w self)))
      else Return w)"
| "resizeSubviews_loop n w oldSize [] = Return w"
| "resizeSubviews_loop n w oldSize (sub # subs) =
     rbind (resizeWithOldSuperviewSize n w sub oldSize)
       (\<lambda>w'. resizeSubviews_loop n w' oldSize subs)"
| "resizeWithOldSuperviewSize n w self oldSize =
     (case resized_frame w self oldSize of
        None \<Rightarrow> Return w
      | Some newFrame \<Rightarrow> setFrame n w self newFrame)"

text \<open>\<^verbatim>\<open>-setFrameOrigin:\<close>.\<close>

definition setFrameOrigin :: "nat \<Rightarrow> world \<Rightarrow> vid \<Rightarrow> NSPoint \<Rightarrow> world result" where
  "setFrameOrigin n w self newOrigin =
     rbind (invalidate_if_valid n w self) (\<lambda>w1.
       let w2 = upd_view self (\<lambda>v.
                  let v1 = v\<lparr>frame := (frame v)\<lparr>origin_x := point_x newOrigin,
                                                  origin_y := point_y newOrigin\<rparr>\<rparr>
                  in v1\<lparr>frameMatrix := setFrameOrigin_matrix (frameMatrix v1) (rect_origin (frame v1))\<rparr>) w1
       in Return (post_frame_changed w2 self))"

text \<open>\<^verbatim>\<open>-setBounds:\<close>, \<^verbatim>\<open>-setBoundsOrigin:\<close> and \<^verbatim>\<open>-setBoundsSize:\<close>.\<close>

definition setBounds :: "nat \<Rightarrow> world \<Rightarrow> vid \<Rightarrow> NSRect \<Rightarrow> world result" where
  "setBounds n w self aRect0 =
     (let w0 = warn_negative aRect0 w;
          aRect = clamp_size aRect0
      in rbind (invalidate_if_valid n w0 self) (\<lambda>w1.
           let w2 = upd_view self (\<lambda>v.
                      let v1 = v\<lparr>bounds := aRect\<rparr>;
                          v2 = v1\<lparr>boundsMatrix := setFrameOrigin_matrix (boundsMatrix v1)
                                    (NSMakePoint (- origin_x (bounds v1)) (- origin_y (bounds v1)))\<rparr>
                      in updateBoundsMatrix v2) w1
           in Return (post_bounds_changed w2 self)))"

definition setBoundsOrigin :: "nat \<Rightarrow> world \<Rightarrow> vid \<Rightarrow> NSPoint \<Rightarrow> world result" where
  "setBoundsOrigin n w self newOrigin =
     (let w0 = upd_view self (\<lambda>v. v\<lparr>bounds := (bounds v)\<lparr>origin_x := point_x newOrigin,
                                                         origin_y := point_y newOrigin\<rparr>\<rparr>) w
      in rbind (invalidate_if_valid n w0 self) (\<lambda>w1.
           let w2 = upd_view self (\<lambda>v. v\<lparr>boundsMatrix := setFrameOrigin_matrix (boundsMatrix v)
                                    (NSMakePoint (- point_x newOrigin) (- point_y newOrigin))\<rparr>) w1
           in Return (post_bounds_changed w2 self)))"


section \<open>Well-formed view trees\<close>

text \<open>
  The predicates below describe the states the properties are stated for; they are not
  part of the program.  \<open>ranked rk w\<close>: the subview lists form a forest (every subview has
  a smaller rank than the view that lists it).  \<open>subview_flags_ok\<close>: a view with subviews
  has its \<^verbatim>\<open>has_subviews\<close> flag set, as \<^verbatim>\<open>addSubview:\<close> leaves it.  \<open>invalid_closed S\<close>:
  the subviews of a view with invalid cached coordinates have invalid cached coordinates
  (a view is only given valid coordinates together with its superview), except possibly
  under the views in \<open>S\<close>.  \<open>descendant w p d\<close>: \<open>d\<close> is reached from \<open>p\<close> through subview
  lists.
\<close>

definition ranked :: "(vid \<Rightarrow> nat) \<Rightarrow> world \<Rightarrow> bool" where
  "ranked rk w \<longleftrightarrow> (\<forall>p c. c \<in> set (sub_views (views w p)) \<longrightarrow> rk c < rk p)"

definition subview_flags_ok :: "world \<Rightarrow> bool" where
  "subview_flags_ok w \<longleftrightarrow> (\<forall>p. sub_views (views w p) \<noteq> [] \<longrightarrow> has_subviews (rFlags (views w p)))"

definition invalid_closed :: "vid set \<Rightarrow> world \<Rightarrow> bool" where
  "invalid_closed S w \<longleftrightarrow>
     (\<forall>p c. p \<notin> S \<longrightarrow> c \<in> set (sub_views (views w p)) \<longrightarrow>
        \<not> coordinates_valid (views w p) \<longrightarrow> \<not> coordinates_valid (views w c))"

inductive descendant :: "world \<Rightarrow> vid \<Rightarrow> vid \<Rightarrow> bool" for w :: world and p :: vid where
  child: "c \<in> set (sub_views (views w p)) \<Longrightarrow> descendant w p c"
| step: "descendant w p c \<Longrightarrow> d \<in> set (sub_views (views w c)) \<Longrightarrow> descendant w p d"

text \<open>
  Relations between the state before and after a call: \<open>only_valid_cleared\<close>, nothing but
  validity flags changed, and those only to invalid; \<open>same_links\<close>, the tree links and
  flags are the same; \<open>untouched_from rk r\<close>, the views of rank \<open>r\<close> or more are the same.
\<close>

definition only_valid_cleared :: "world \<Rightarrow> world \<Rightarrow> bool" where
  "only_valid_cleared w w' \<longleftrightarrow>
     (\<forall>u. views w' u = views w u \<or> views w' u = (views w u)\<lparr>coordinates_valid := False\<rparr>)"

definition same_links :: "world \<Rightarrow> world \<Rightarrow> bool" where
  "same_links w w' \<longleftrightarrow>
     (\<forall>u. sub_views (views w' u) = sub_views (views w u)
        \<and> super_view (views w' u) = super_view (views w u)
        \<and> window (views w' u) = window (views w u)
        \<and> rFlags (views w' u) = rFlags (views w u))"

definition valid_mono :: "world \<Rightarrow> world \<Rightarrow> bool" where
  "valid_mono w w' \<longleftrightarrow> (\<forall>u. coordinates_valid (views w' u) \<longrightarrow> coordinates_valid (views w u))"

definition untouched_from :: "(vid \<Rightarrow> nat) \<Rightarrow> nat \<Rightarrow> world \<Rightarrow> world \<Rightarrow> bool" where
  "untouched_from rk r w w' \<longleftrightarrow> (\<forall>u. r \<le> rk u \<longrightarrow> views w' u = views w u)"

text \<open>
  \<open>up_ranked dp w\<close>: superview chains are finite (\<open>dp\<close> decreases towards the superview).
  \<open>windows_consistent\<close>: a view and its superview are in the same window, as
  \<^verbatim>\<open>viewWillMoveToWindow:\<close> leaves them.  \<open>cache_only w w'\<close>: the two states differ at most in
  the cached coordinates of views (validity flag, visible rectangle, the two matrices).
  \<open>valid_kept w w'\<close>: the views with valid cached coordinates are the same in both states,
  and a view whose cached coordinates have become valid holds, as matrix from the window,
  the inverse of its matrix to the window.  \<open>cache_inverse w\<close>: every view with valid
  cached coordinates holds such a pair of matrices, as \<^verbatim>\<open>-_rebuildCoordinates\<close> leaves them.
\<close>

definition up_ranked :: "(vid \<Rightarrow> nat) \<Rightarrow> world \<Rightarrow> bool" where
  "up_ranked dp w \<longleftrightarrow> (\<forall>v p. super_view (views w v) = Some p \<longrightarrow> dp p < dp v)"

definition windows_consistent :: "world \<Rightarrow> bool" where
  "windows_consistent w \<longleftrightarrow>
     (\<forall>v p. super_view (views w v) = Some p \<longrightarrow> window (views w p) = window (views w v))"

definition strip_cache :: "NSView \<Rightarrow> NSView" where
  "strip_cache v = v\<lparr>coordinates_valid := False, visibleRect_ivar := NSZeroRect,
     matrixToWindow_ivar := zero_matrix, matrixFromWindow_ivar := zero_matrix\<rparr>"

definition cache_only :: "world \<Rightarrow> world \<Rightarrow> bool" where
  "cache_only w w' \<longleftrightarrow>
     windows w' = windows w \<and> trace w' = trace w
     \<and> (\<forall>u. strip_cache (views w' u) = strip_cache (views w u))"

definition valid_kept :: "world \<Rightarrow> world \<Rightarrow> bool" where
  "valid_kept w w' \<longleftrightarrow>
     (\<forall>u. coordinates_valid (views w u) \<longrightarrow> views w' u = views w u)
     \<and> (\<forall>u. \<not> coordinates_valid (views w u) \<longrightarrow> coordinates_valid (views w' u) \<longrightarrow>
            matrixFromWindow_ivar (views w' u) = invert (matrixToWindow_ivar (views w' u)))"


text \<open>
  \<open>ancestor w v a\<close>: \<open>a\<close> is reached from \<open>v\<close> through superview links (its superview, the
  superview of that, and so on).  \<open>invalid_in_bounds\<close>: the invalid rectangle of a view is the
  zero rectangle, or is not empty and lies within the bounds.
\<close>

inductive ancestor :: "world \<Rightarrow> vid \<Rightarrow> vid \<Rightarrow> bool" for w :: world where
  parent: "super_view (views w v) = Some p \<Longrightarrow> ancestor w v p"
| grand: "super_view (views w v) = Some p \<Longrightarrow> ancestor w p a \<Longrightarrow> ancestor w v a"

definition invalid_in_bounds :: "NSView \<Rightarrow> bool" where
  "invalid_in_bounds v \<longleftrightarrow>
     invalidRect v = NSZeroRect
     \<or> (\<not> NSIsEmptyRect (invalidRect v) \<and> rect_contains (bounds v) (invalidRect v))"

text \<open>\<open>marked w cur u\<close>: \<open>u\<close> is \<open>cur\<close> or one of its ancestors.\<close>

definition marked :: "world \<Rightarrow> vid option \<Rightarrow> vid \<Rightarrow> bool" where
  "marked w cur u \<longleftrightarrow> (case cur of None \<Rightarrow> False | Some c \<Rightarrow> u = c \<or> ancestor w c u)"

text \<open>
  \<open>sub_linked\<close>: every view in a subview list has the owner of the list as its superview.
  \<open>content_in_window\<close>: the content view of a window is in that window.
  \<open>display_only w w'\<close>: the two states differ at most in the trace and, for each view, in
  the cached coordinates, the invalid rectangle and the needs-display flag.
\<close>

definition sub_linked :: "world \<Rightarrow> bool" where
  "sub_linked w \<longleftrightarrow>
     (\<forall>p c. c \<in> set (sub_views (views w p)) \<longrightarrow> super_view (views w c) = Some p)"

definition content_in_window :: "world \<Rightarrow> bool" where
  "content_in_window w \<longleftrightarrow>
     (\<forall>win c. contentView (windows w win) = Some c \<longrightarrow> window (views w c) = Some win)"

definition strip_display :: "NSView \<Rightarrow> NSView" where
  "strip_display v = (strip_cache v)\<lparr>invalidRect := NSZeroRect,
     rFlags := (rFlags v)\<lparr>needs_display := False\<rparr>\<rparr>"

definition display_only :: "world \<Rightarrow> world \<Rightarrow> bool" where
  "display_only w w' \<longleftrightarrow>
     windows w' = windows w \<and> (\<forall>u. strip_display (views w' u) = strip_display (views w u))"

text \<open>
  \<open>well_formed dp rk w\<close>: the view tree of \<open>w\<close> is a forest whose superview links and
  subview lists agree, with every view in the window of its superview.
\<close>

definition well_formed :: "(vid \<Rightarrow> nat) \<Rightarrow> (vid \<Rightarrow> nat) \<Rightarrow> world \<Rightarrow> bool" where
  "well_formed dp rk w \<longleftrightarrow>
     up_ranked dp w \<and> windows_consistent w \<and> content_in_window w \<and> ranked rk w \<and> sub_linked w"

text \<open>
  \<open>geometry_kept w w'\<close>: moreover, stated apart, the links and bounds of every view are the
  same.  \<open>mark_post k fl\<close>: what marking a rectangle of a view as needing display leaves,
  with rounding \<open>fl\<close>; the first conjunct is only claimed when \<open>k\<close> is set.
\<close>

definition geometry_kept :: "world \<Rightarrow> world \<Rightarrow> bool" where
  "geometry_kept w w' \<longleftrightarrow>
     display_only w w'
     \<and> (\<forall>u. super_view (views w' u) = super_view (views w u)
         \<and> window (views w' u) = window (views w u)
         \<and> bounds (views w' u) = bounds (views w u))"

definition mark_post ::
  "bool \<Rightarrow> (real \<Rightarrow> real) \<Rightarrow> world \<Rightarrow> vid \<Rightarrow> NSRect \<Rightarrow> world \<Rightarrow> bool" where
  "mark_post k fl w self rect w' \<longleftrightarrow>
     (k \<longrightarrow> (\<forall>u. invalid_in_bounds (views w' u)))
     \<and> geometry_kept w w'
     \<and> invalidRect (views w' self)
         = NSUnionRect_fl fl (invalidRect (views w self))
             (NSIntersectionRect_fl fl rect (bounds (views w self)))
     \<and> (\<forall>u. u \<noteq> self \<longrightarrow> \<not> ancestor w self u \<longrightarrow>
            invalidRect (views w' u) = invalidRect (views w u))"
section \<open>Example states\<close>

text \<open>
  A parent view 0 with frame (0, 0, 100, 100) and one subview 1 with frame
  (10, 10, 50, 50), in no window: first as the initialisers leave them, with invalid cached
  coordinates, then with both marked valid.  The rank of the parent is 1 and the rank of
  the subview is 0.
\<close>

definition detached_parent_and_child :: world where
  "detached_parent_and_child =
     upd_view 0 (\<lambda>v. (set_has_subviews True v)\<lparr>sub_views := [1]\<rparr>)
       (upd_view 1 (\<lambda>v. v\<lparr>super_view := Some 0\<rparr>)
          (initWithFrame
             (initWithFrame empty_world 0 False False False (NSMakeRect 0 0 100 100))
             1 False False False (NSMakeRect 10 10 50 50)))"

definition parent_and_child :: world where
  "parent_and_child =
     upd_view 0 (\<lambda>v. v\<lparr>coordinates_valid := True\<rparr>)
       (upd_view 1 (\<lambda>v. v\<lparr>coordinates_valid := True\<rparr>) detached_parent_and_child)"

definition rank_parent_and_child :: "vid \<Rightarrow> nat" where
  "rank_parent_and_child v = (if v = 0 then 1 else 0)"


definition depth_parent_and_child :: "vid \<Rightarrow> nat" where
  "depth_parent_and_child v = (if v = 1 then 1 else 0)"

text \<open>
  The detached parent and subview, the subview with its whole bounds pending redraw and the
  parent with its flag cleared (as \<^verbatim>\<open>[parent setNeedsDisplay: NO]\<close> or a display pass of
  the parent leaves it).
\<close>

definition dirty_child :: world where
  "dirty_child =
     upd_view 0 (\<lambda>v. (set_needs_display False v)\<lparr>invalidRect := NSZeroRect\<rparr>)
       (upd_view 1 (\<lambda>v. v\<lparr>invalidRect := NSMakeRect 0 0 50 50\<rparr>) detached_parent_and_child)"




section \<open>Rebuilding the cached coordinates, and converting between views\<close>

text \<open>
  \<^verbatim>\<open>-_matrixToWindow\<close>, \<^verbatim>\<open>-_matrixFromWindow\<close>, \<^verbatim>\<open>-visibleRect\<close> and the conversion
  methods rebuild the cached coordinates when they are invalid, and
  \<^verbatim>\<open>-_rebuildCoordinates\<close> calls them on the superview: each of them is written over the
  rebuilding function it calls, which is \<open>rebuildCoordinates\<close> itself with the bound on
  the depth of the calls.
\<close>

definition matrixToWindow_with ::
  "(world \<Rightarrow> vid \<Rightarrow> world result) \<Rightarrow> world \<Rightarrow> vid \<Rightarrow> (world \<times> NSAffineTransform) result" where
  "matrixToWindow_with rebuild w self =
     rbind (if \<not> coordinates_valid (views w self) then rebuild w self else Return w)
       (\<lambda>w'. Return (w', matrixToWindow_ivar (views w' self)))"

definition matrixFromWindow_with ::
  "(world \<Rightarrow> vid \<Rightarrow> world result) \<Rightarrow> world \<Rightarrow> vid \<Rightarrow> (world \<times> NSAffineTransform) result" where
  "matrixFromWindow_with rebuild w self =
     rbind (if \<not> coordinates_valid (views w self) then rebuild w self else Return w)
       (\<lambda>w'. Return (w', matrixFromWindow_ivar (views w' self)))"

definition visibleRect_with ::
  "(world \<Rightarrow> vid \<Rightarrow> world result) \<Rightarrow> world \<Rightarrow> vid \<Rightarrow> (world \<times> NSRect) result" where
  "visibleRect_with rebuild w self =
     rbind (if \<not> coordinates_valid (views w self) then rebuild w self else Return w)
       (\<lambda>w'. Return (w', visibleRect_ivar (views w' self)))"

text \<open>\<^verbatim>\<open>[[_window contentView] superview]\<close>, the view that stands for \<^verbatim>\<open>nil\<close> in a conversion.\<close>

definition window_base_view :: "world \<Rightarrow> vid \<Rightarrow> vid option" where
  "window_base_view w self =
     (case window (views w self) of None \<Rightarrow> None
      | Some win \<Rightarrow> (case contentView (windows w win) of None \<Rightarrow> None
                     | Some cv \<Rightarrow> super_view (views w cv)))"

text \<open>
  \<^verbatim>\<open>-convertRect:fromView:\<close> and \<^verbatim>\<open>-convertRect:toView:\<close>.  A failed \<^verbatim>\<open>NSAssert\<close> raises
  \<^verbatim>\<open>NSInternalInconsistencyException\<close>.
\<close>

definition convertRect_fromView_with ::
  "(world \<Rightarrow> vid \<Rightarrow> world result) \<Rightarrow> world \<Rightarrow> vid \<Rightarrow> NSRect \<Rightarrow> vid option
     \<Rightarrow> (world \<times> NSRect) result" where
  "convertRect_fromView_with rebuild w self aRect aView0 =
     (let aView = (case aView0 of None \<Rightarrow> window_base_view w self | Some a \<Rightarrow> Some a) in
      case aView of
        None \<Rightarrow> Return (w, aRect)
      | Some a \<Rightarrow>
          if a = self then Return (w, aRect)
          else if window (views w self) \<noteq> window (views w a)
          then Raise NSInternalInconsistencyException w
          else
            rbind (matrixToWindow_with rebuild w a) (\<lambda>(w1, matrix1).
            rbind (if coordinates_valid (views w1 self)
                   then Return (w1, matrixFromWindow_ivar (views w1 self))
                   else matrixFromWindow_with rebuild w1 self) (\<lambda>(w2, matrix2).
            Return (w2, convert_rect_using_matrices aRect matrix1 matrix2))))"


text \<open>
  The class variable \<^verbatim>\<open>flip\<close>, with the translation \<^verbatim>\<open>_rebuildCoordinates\<close> stores in it
  before each use.
\<close>

definition flip_matrix :: "real \<Rightarrow> NSAffineTransform" where
  "flip_matrix h = \<lparr>m11 = 1, m12 = 0, m21 = 0, m22 = - 1, tX = 0, tY = h\<rparr>"

definition set_identity_coordinates :: "NSRect \<Rightarrow> NSView \<Rightarrow> NSView" where
  "set_identity_coordinates r v =
     v\<lparr>visibleRect_ivar := r, matrixToWindow_ivar := makeIdentityMatrix,
       matrixFromWindow_ivar := makeIdentityMatrix\<rparr>"

definition compose_matrices :: "NSAffineTransform \<Rightarrow> bool \<Rightarrow> NSView \<Rightarrow> NSView" where
  "compose_matrices pMatrix wasFlipped v =
     (let m1 = prependTransform pMatrix (frameMatrix v);
          m2 = (if flipped_view (rFlags v) \<noteq> wasFlipped
                then prependTransform m1 (flip_matrix (size_height (frame v))) else m1);
          m3 = prependTransform m2 (boundsMatrix v)
      in v\<lparr>matrixToWindow_ivar := m3, matrixFromWindow_ivar := invert m3\<rparr>)"

text \<open>
  \<^verbatim>\<open>-_rebuildCoordinates\<close>.  The test for a missing window and the test for a missing
  superview are two statements in a row, as in the source: the second is not the
  \<^verbatim>\<open>else\<close> of the first.
\<close>

fun rebuildCoordinates :: "nat \<Rightarrow> world \<Rightarrow> vid \<Rightarrow> world result" where
  "rebuildCoordinates 0 w self = OutOfFuel"
| "rebuildCoordinates (Suc n) w self =
     (if \<not> coordinates_valid (views w self) then
        let w1 = upd_view self (\<lambda>v. v\<lparr>coordinates_valid := True\<rparr>) w;
            w2 = upd_view self (\<lambda>v. if window v = None
                                   then set_identity_coordinates NSZeroRect v else v) w1
        in case super_view (views w2 self) of
             None \<Rightarrow> Return (upd_view self (\<lambda>v. set_identity_coordinates (bounds v) v) w2)
           | Some sv \<Rightarrow>
               let wasFlipped = flipped_view (rFlags (views w2 sv)) in
               rbind (matrixToWindow_with (rebuildCoordinates n) w2 sv) (\<lambda>(w3, pMatrix).
               let w4 = upd_view self (compose_matrices pMatrix wasFlipped) w3 in
               rbind (visibleRect_with (rebuildCoordinates n) w4 sv) (\<lambda>(w5, r).
               rbind (convertRect_fromView_with (rebuildCoordinates n) w5 self r (Some sv))
                 (\<lambda>(w6, superviewsVisibleRect).
               Return (upd_view self (\<lambda>v. v\<lparr>visibleRect_ivar :=
                          NSIntersectionRect superviewsVisibleRect (bounds v)\<rparr>) w6))))
      else Return w)"

definition matrixToWindow :: "nat \<Rightarrow> world \<Rightarrow> vid \<Rightarrow> (world \<times> NSAffineTransform) result" where
  "matrixToWindow n = matrixToWindow_with (rebuildCoordinates n)"

definition matrixFromWindow :: "nat \<Rightarrow> world \<Rightarrow> vid \<Rightarrow> (world \<times> NSAffineTransform) result" where
  "matrixFromWindow n = matrixFromWindow_with (rebuildCoordinates n)"

definition visibleRect :: "nat \<Rightarrow> world \<Rightarrow> vid \<Rightarrow> (world \<times> NSRect) result" where
  "visibleRect n = visibleRect_with (rebuildCoordinates n)"

definition convertRect_fromView ::
  "nat \<Rightarrow> world \<Rightarrow> vid \<Rightarrow> NSRect \<Rightarrow> vid option \<Rightarrow> (world \<times> NSRect) result" where
  "convertRect_fromView n = convertRect_fromView_with (rebuildCoordinates n)"


text \<open>The guarded call \<^verbatim>\<open>if (_coordinates_valid == NO) [self _rebuildCoordinates]\<close>.\<close>

definition rebuild_if_invalid :: "nat \<Rightarrow> world \<Rightarrow> vid \<Rightarrow> world result" where
  "rebuild_if_invalid n w self =
     (if \<not> coordinates_valid (views w self) then rebuildCoordinates n w self else Return w)"





section \<open>Marking views as needing display\<close>

text \<open>\<^verbatim>\<open>-opaqueAncestor\<close>: the loop, from the values of \<^verbatim>\<open>next\<close> and \<^verbatim>\<open>current\<close>.\<close>

fun opaqueAncestor_loop :: "nat \<Rightarrow> world \<Rightarrow> vid option \<Rightarrow> vid \<Rightarrow> vid result" where
  "opaqueAncestor_loop 0 w nxt current = OutOfFuel"
| "opaqueAncestor_loop (Suc n) w None current = Return current"
| "opaqueAncestor_loop (Suc n) w (Some nx) current =
     (if isOpaque (views w current) then Return current
      else opaqueAncestor_loop n w (super_view (views w nx)) nx)"

definition opaqueAncestor :: "nat \<Rightarrow> world \<Rightarrow> vid \<Rightarrow> vid result" where
  "opaqueAncestor n w self = opaqueAncestor_loop n w (super_view (views w self)) self"

text \<open>
  The last loop of \<^verbatim>\<open>-_setNeedsDisplayInRect_real:\<close>, which sets the flag of every
  superview, from the value of \<^verbatim>\<open>currentView\<close>.
\<close>

fun mark_superviews :: "nat \<Rightarrow> world \<Rightarrow> vid option \<Rightarrow> world result" where
  "mark_superviews 0 w currentView = OutOfFuel"
| "mark_superviews (Suc n) w None = Return w"
| "mark_superviews (Suc n) w (Some c) =
     mark_superviews n (upd_view c (set_needs_display True) w) (super_view (views w c))"

text \<open>
  \<^verbatim>\<open>-_setNeedsDisplayInRect_real:\<close>.  The public \<^verbatim>\<open>-setNeedsDisplayInRect:\<close> calls it at
  once when it runs in the thread of the application, which is the only thread of the
  model.  The first argument is the rounding of the float arithmetic of the rectangle
  functions.
\<close>

fun setNeedsDisplayInRect ::
  "(real \<Rightarrow> real) \<Rightarrow> nat \<Rightarrow> world \<Rightarrow> vid \<Rightarrow> NSRect \<Rightarrow> world result" where
  "setNeedsDisplayInRect fl 0 w self rect = OutOfFuel"
| "setNeedsDisplayInRect fl (Suc n) w self rect =
     (let currentView = super_view (views w self);
          invalidRect1 = NSIntersectionRect_fl fl rect (bounds (views w self));
          invalidRect2 = NSUnionRect_fl fl (invalidRect (views w self)) invalidRect1
      in rbind
          (if \<not> NSEqualRects invalidRect2 (invalidRect (views w self)) then
             rbind (opaqueAncestor n w self) (\<lambda>firstOpaque.
               let w1 = upd_view self (\<lambda>v. (set_needs_display True v)\<lparr>invalidRect := invalidRect2\<rparr>) w
               in if firstOpaque = self
                  then Return (to_window w1 self (\<lambda>win. SetViewsNeedDisplay win True))
                  else rbind (convertRect_fromView n w1 firstOpaque (invalidRect (views w1 self))
                                (Some self)) (\<lambda>(w2, r).
                       setNeedsDisplayInRect fl n w2 firstOpaque r))
           else Return w)
          (\<lambda>w3. mark_superviews n w3 currentView))"

text \<open>\<^verbatim>\<open>-_setNeedsDisplay_real:\<close>, which the public \<^verbatim>\<open>-setNeedsDisplay:\<close> calls.\<close>

definition setNeedsDisplay ::
  "(real \<Rightarrow> real) \<Rightarrow> nat \<Rightarrow> world \<Rightarrow> vid \<Rightarrow> bool \<Rightarrow> world result" where
  "setNeedsDisplay fl n w self flag =
     (if flag then setNeedsDisplayInRect fl n w self (bounds (views w self))
      else Return (upd_view self (\<lambda>v. (set_needs_display False v)\<lparr>invalidRect := NSZeroRect\<rparr>) w))"

section \<open>Adding and removing subviews\<close>

text \<open>\<^verbatim>\<open>-isDescendantOf:\<close>; the argument may be \<^verbatim>\<open>nil\<close>.\<close>

fun isDescendantOf :: "nat \<Rightarrow> world \<Rightarrow> vid \<Rightarrow> vid option \<Rightarrow> bool result" where
  "isDescendantOf 0 w self aView = OutOfFuel"
| "isDescendantOf (Suc n) w self aView =
     (if aView = Some self then Return True
      else case super_view (views w self) of
             None \<Rightarrow> Return False
           | Some s \<Rightarrow> if aView = Some s then Return True else isDescendantOf n w s aView)"

text \<open>
  \<^verbatim>\<open>-discardCursorRects\<close>.  Invalidating a tracking rectangle only sets a flag of that
  object, which is released with the array.
\<close>

definition discardCursorRects :: "world \<Rightarrow> vid \<Rightarrow> world" where
  "discardCursorRects w self =
     (if has_currects (rFlags (views w self))
      then upd_view self (\<lambda>v. v\<lparr>cursor_rects := [],
             rFlags := (rFlags v)\<lparr>valid_rects := False, has_currects := False\<rparr>\<rparr>) w
      else w)"

text \<open>
  \<^verbatim>\<open>-viewWillMoveToWindow:\<close>.  The dragged types of a view are kept in a table outside the
  view; the messages to the display server name the view they are for.
\<close>

definition move_drag_types :: "world \<Rightarrow> vid \<Rightarrow> wid option \<Rightarrow> world" where
  "move_drag_types w self newWindow =
     (let w1 = (case window (views w self) of
                  None \<Rightarrow> w | Some old \<Rightarrow> emit (RemoveDragTypes old self) w);
          w2 = (case newWindow of None \<Rightarrow> w1 | Some new \<Rightarrow> emit (AddDragTypes new self) w1)
      in w2)"

fun viewWillMoveToWindow :: "nat \<Rightarrow> world \<Rightarrow> vid \<Rightarrow> wid option \<Rightarrow> world result"
and viewWillMoveToWindow_subs :: "nat \<Rightarrow> world \<Rightarrow> vid list \<Rightarrow> wid option \<Rightarrow> world result" where
  "viewWillMoveToWindow 0 w self newWindow = OutOfFuel"
| "viewWillMoveToWindow (Suc n) w self newWindow =
     (if newWindow = window (views w self) then Return w
      else rbind (invalidate_if_valid n w self) (\<lambda>w1.
        let w2 = (if has_currects (rFlags (views w1 self)) then discardCursorRects w1 self else w1);
            w3 = (if has_draginfo (rFlags (views w2 self))
                  then move_drag_types w2 self newWindow else w2);
            w4 = upd_view self (\<lambda>v. v\<lparr>window := newWindow\<rparr>) w3
        in if has_subviews (rFlags (views w4 self))
           then viewWillMoveToWindow_subs n w4 (sub_views (views w4 self)) newWindow
           else Return w4))"
| "viewWillMoveToWindow_subs n w [] newWindow = Return w"
| "viewWillMoveToWindow_subs n w (sub # subs) newWindow =
     rbind (viewWillMoveToWindow n w sub newWindow)
       (\<lambda>w'. viewWillMoveToWindow_subs n w' subs newWindow)"

text \<open>
  \<^verbatim>\<open>-_viewDidMoveToWindow\<close>: it calls the hook \<^verbatim>\<open>-viewDidMoveToWindow\<close>, which does nothing
  in \<^verbatim>\<open>NSView\<close>, on the view and on every view below it.
\<close>

fun viewDidMoveToWindow_all :: "nat \<Rightarrow> world \<Rightarrow> vid \<Rightarrow> world result"
and viewDidMoveToWindow_subs :: "nat \<Rightarrow> world \<Rightarrow> vid list \<Rightarrow> world result" where
  "viewDidMoveToWindow_all 0 w self = OutOfFuel"
| "viewDidMoveToWindow_all (Suc n) w self =
     (if has_subviews (rFlags (views w self))
      then viewDidMoveToWindow_subs n w (sub_views (views w self))
      else Return w)"
| "viewDidMoveToWindow_subs n w [] = Return w"
| "viewDidMoveToWindow_subs n w (sub # subs) =
     rbind (viewDidMoveToWindow_all n w sub) (\<lambda>w'. viewDidMoveToWindow_subs n w' subs)"

text \<open>
  The first loop of \<^verbatim>\<open>-removeSubview:\<close>, from the value of \<^verbatim>\<open>view\<close>: whether the first
  responder of the window is \<open>aView\<close> or a view below it.  A window does not respond to
  \<^verbatim>\<open>superview\<close>, so the loop only runs when the first responder is a view.
\<close>

fun firstResponder_loop :: "nat \<Rightarrow> world \<Rightarrow> vid option \<Rightarrow> vid \<Rightarrow> bool result" where
  "firstResponder_loop 0 w view aView = OutOfFuel"
| "firstResponder_loop (Suc n) w None aView = Return False"
| "firstResponder_loop (Suc n) w (Some v) aView =
     (if v = aView then Return True
      else firstResponder_loop n w (super_view (views w v)) aView)"

definition resign_first_responder :: "nat \<Rightarrow> world \<Rightarrow> vid \<Rightarrow> vid \<Rightarrow> world result" where
  "resign_first_responder n w self aView =
     (case window (views w self) of
        None \<Rightarrow> Return w
      | Some win \<Rightarrow>
          (case firstResponder (windows w win) of
             ViewResponder v \<Rightarrow>
               rbind (firstResponder_loop n w (Some v) aView)
                 (\<lambda>found. Return (if found then emit (MakeFirstResponder win) w else w))
           | _ \<Rightarrow> Return w))"

text \<open>
  \<^verbatim>\<open>-removeSubview:\<close>.  The hooks \<^verbatim>\<open>-willRemoveSubview:\<close> and \<^verbatim>\<open>-viewDidMoveToSuperview\<close> do
  nothing in \<^verbatim>\<open>NSView\<close>; \<^verbatim>\<open>-viewWillMoveToSuperview:\<close> stores its argument in
  \<^verbatim>\<open>_super_view\<close>.
\<close>

definition removeSubview :: "(real \<Rightarrow> real) \<Rightarrow> nat \<Rightarrow> world \<Rightarrow> vid \<Rightarrow> vid \<Rightarrow> world result" where
  "removeSubview fl n w self aView =
     rbind (resign_first_responder n w self aView) (\<lambda>w1.
       let w2 = upd_view aView (\<lambda>v. v\<lparr>super_view := None\<rparr>) w1
       in rbind (viewWillMoveToWindow n w2 aView None) (\<lambda>w3.
            let w4 = upd_view aView (\<lambda>v. v\<lparr>super_view := None\<rparr>) w3;
                w5 = upd_view aView (\<lambda>v. v\<lparr>next_responder := None\<rparr>) w4;
                w6 = upd_view self (\<lambda>v. v\<lparr>sub_views := removeAll aView (sub_views v)\<rparr>) w5
            in rbind (setNeedsDisplay fl n w6 aView False) (\<lambda>w7.
               rbind (viewDidMoveToWindow_all n w7 aView) (\<lambda>w8.
                 Return (if sub_views (views w8 self) = []
                         then upd_view self (set_has_subviews False) w8 else w8)))))"

text \<open>\<^verbatim>\<open>-removeFromSuperview\<close>.\<close>

definition removeFromSuperview :: "(real \<Rightarrow> real) \<Rightarrow> nat \<Rightarrow> world \<Rightarrow> vid \<Rightarrow> world result" where
  "removeFromSuperview fl n w self =
     (case super_view (views w self) of
        None \<Rightarrow> Return w
      | Some s \<Rightarrow>
          rbind (setNeedsDisplayInRect fl n w s (frame (views w self)))
            (\<lambda>w1. removeSubview fl n w1 s self))"

text \<open>
  \<^verbatim>\<open>-addSubview:\<close>.  Raising an exception ends the method: nothing after the
  \<^verbatim>\<open>raise\<close> runs.  The hooks \<^verbatim>\<open>-resetCursorRects\<close>, \<^verbatim>\<open>-viewDidMoveToSuperview\<close> and
  \<^verbatim>\<open>-didAddSubview:\<close> do nothing in \<^verbatim>\<open>NSView\<close>.  The first argument is the rounding of the
  float arithmetic, which the calls that mark views as needing display take.
\<close>

definition addSubview :: "(real \<Rightarrow> real) \<Rightarrow> nat \<Rightarrow> world \<Rightarrow> vid \<Rightarrow> vid option \<Rightarrow> world result" where
  "addSubview fl n w self aView0 =
     (case aView0 of
        None \<Rightarrow> Raise NSInvalidArgumentException w
      | Some aView \<Rightarrow>
          rbind (isDescendantOf n w self (Some aView)) (\<lambda>loop.
            if loop then Raise NSInvalidArgumentException w
            else
              rbind (removeFromSuperview fl n w aView) (\<lambda>w1.
              rbind (invalidate_if_valid n w1 aView) (\<lambda>w2.
              rbind (viewWillMoveToWindow n w2 aView (window (views w2 self))) (\<lambda>w3.
                let w4 = upd_view aView (\<lambda>v. v\<lparr>super_view := Some self\<rparr>) w3;
                    w5 = upd_view aView (\<lambda>v. v\<lparr>next_responder := Some self\<rparr>) w4;
                    w6 = upd_view self (\<lambda>v. v\<lparr>sub_views := sub_views v @ [aView]\<rparr>) w5;
                    w7 = upd_view self (set_has_subviews True) w6
                in rbind (setNeedsDisplay fl n w7 aView True) (\<lambda>w8.
                   viewDidMoveToWindow_all n w8 aView))))))"
section \<open>The key view chain\<close>

text \<open>
  \<^verbatim>\<open>_nextKeyView\<close> and \<^verbatim>\<open>_previousKeyView\<close> point to arrays of view references
  (\<^verbatim>\<open>GSIArray\<close>), \<open>None\<close> while not allocated; item 0 of the array is the link that
  \<^verbatim>\<open>-nextKeyView\<close> and \<^verbatim>\<open>-previousKeyView\<close> return.  An allocated array always has an item 0.
\<close>

definition item0 :: "vid option list option \<Rightarrow> vid option" where
  "item0 arr = (case arr of None \<Rightarrow> None | Some [] \<Rightarrow> None | Some (a # _) \<Rightarrow> a)"

definition nextKeyView :: "world \<Rightarrow> vid \<Rightarrow> vid option" where
  "nextKeyView w self = item0 (nextKeyView_ivar (views w self))"

definition previousKeyView :: "world \<Rightarrow> vid \<Rightarrow> vid option" where
  "previousKeyView w self = item0 (previousKeyView_ivar (views w self))"

text \<open>\<^verbatim>\<open>-isHiddenOrHasHiddenAncestor\<close>; a message to a \<^verbatim>\<open>nil\<close> superview answers NO.\<close>

fun isHiddenOrHasHiddenAncestor :: "nat \<Rightarrow> world \<Rightarrow> vid \<Rightarrow> bool result" where
  "isHiddenOrHasHiddenAncestor 0 w self = OutOfFuel"
| "isHiddenOrHasHiddenAncestor (Suc n) w self =
     (if is_hidden (views w self) then Return True
      else case super_view (views w self) of
             None \<Rightarrow> Return False
           | Some s \<Rightarrow> isHiddenOrHasHiddenAncestor n w s)"

text \<open>\<^verbatim>\<open>-canBecomeKeyView\<close>.\<close>

definition canBecomeKeyView :: "nat \<Rightarrow> world \<Rightarrow> vid \<Rightarrow> bool result" where
  "canBecomeKeyView n w self =
     (if acceptsFirstResponder (views w self)
      then rbind (isHiddenOrHasHiddenAncestor n w self) (\<lambda>h. Return (\<not> h))
      else Return False)"

text \<open>
  The loop of \<^verbatim>\<open>-nextValidKeyView\<close> and of \<^verbatim>\<open>-previousValidKeyView\<close>, from the value of
  \<^verbatim>\<open>theView\<close>.  The two methods differ only in the link they follow, which is the first
  argument here.  The bound counts the turns of the loop as well as the depth of the calls.
\<close>

fun validKeyView_loop ::
  "(world \<Rightarrow> vid \<Rightarrow> vid option) \<Rightarrow> nat \<Rightarrow> world \<Rightarrow> vid \<Rightarrow> vid option \<Rightarrow> vid option result" where
  "validKeyView_loop link 0 w self theView = OutOfFuel"
| "validKeyView_loop link (Suc n) w self None = Return None"
| "validKeyView_loop link (Suc n) w self (Some t) =
     (if t = self then Return (Some t)
      else rbind (canBecomeKeyView n w t) (\<lambda>can.
             if can then Return (Some t) else validKeyView_loop link n w self (link w t)))"

definition nextValidKeyView :: "nat \<Rightarrow> world \<Rightarrow> vid \<Rightarrow> vid option result" where
  "nextValidKeyView n w self = validKeyView_loop nextKeyView n w self (nextKeyView w self)"

definition previousValidKeyView :: "nat \<Rightarrow> world \<Rightarrow> vid \<Rightarrow> vid option result" where
  "previousValidKeyView n w self =
     validKeyView_loop previousKeyView n w self (previousKeyView w self)"

text \<open>
  \<^verbatim>\<open>-setNextKeyView:\<close>.  The loops \<^verbatim>\<open>while (count-- > 1)\<close> remove every reference to a view
  from the items after item 0 of an array.  The argument is a view or \<^verbatim>\<open>nil\<close>: the model
  has no other objects, so the exception for a non-view argument is never raised.
\<close>

definition remove_after0 :: "vid \<Rightarrow> vid option list \<Rightarrow> vid option list" where
  "remove_after0 x arr = (case arr of [] \<Rightarrow> [] | a # rest \<Rightarrow> a # filter (\<lambda>y. y \<noteq> Some x) rest)"

definition set_item0 :: "vid option \<Rightarrow> vid option list \<Rightarrow> vid option list" where
  "set_item0 x arr = (case arr of [] \<Rightarrow> [] | _ # rest \<Rightarrow> x # rest)"

definition nKV :: "world \<Rightarrow> vid \<Rightarrow> vid option list" where
  "nKV w v = (case nextKeyView_ivar (views w v) of None \<Rightarrow> [] | Some arr \<Rightarrow> arr)"

definition pKV :: "world \<Rightarrow> vid \<Rightarrow> vid option list" where
  "pKV w v = (case previousKeyView_ivar (views w v) of None \<Rightarrow> [] | Some arr \<Rightarrow> arr)"

definition set_nKV :: "vid \<Rightarrow> vid option list \<Rightarrow> world \<Rightarrow> world" where
  "set_nKV v arr w = upd_view v (\<lambda>x. x\<lparr>nextKeyView_ivar := Some arr\<rparr>) w"

definition set_pKV :: "vid \<Rightarrow> vid option list \<Rightarrow> world \<Rightarrow> world" where
  "set_pKV v arr w = upd_view v (\<lambda>x. x\<lparr>previousKeyView_ivar := Some arr\<rparr>) w"

definition setNextKeyView :: "world \<Rightarrow> vid \<Rightarrow> vid option \<Rightarrow> world" where
  "setNextKeyView w self aView0 =
     (case aView0 of
        None \<Rightarrow>
          (if nextKeyView_ivar (views w self) \<noteq> None then
             (case item0 (nextKeyView_ivar (views w self)) of
                None \<Rightarrow> w
              | Some tmp \<Rightarrow>
                  let w1 = (if previousKeyView_ivar (views w tmp) \<noteq> None then
                              let w0 = set_pKV tmp (remove_after0 self (pKV w tmp)) w
                              in if item0 (previousKeyView_ivar (views w0 tmp)) = Some self
                                 then set_pKV tmp (set_item0 None (pKV w0 tmp)) w0 else w0
                            else w)
                  in set_nKV self (set_item0 None (nKV w1 self)) w1)
           else w)
      | Some aView \<Rightarrow>
          if nextKeyView_ivar (views w self) \<noteq> None \<and> item0 (nextKeyView_ivar (views w self)) = Some aView
          then w
          else
            let w1 = (if nextKeyView_ivar (views w self) = None then set_nKV self [None] w else w);
                w2 = (if previousKeyView_ivar (views w1 aView) = None then set_pKV aView [None] w1 else w1);
                w3 = (case item0 (previousKeyView_ivar (views w2 aView)) of
                        None \<Rightarrow> w2
                      | Some tmp \<Rightarrow>
                          let w0 = set_nKV tmp (remove_after0 aView (nKV w2 tmp)) w2
                          in if item0 (nextKeyView_ivar (views w0 tmp)) = Some aView
                             then set_pKV aView (None # pKV w0 aView) w0 else w0);
                w4 = set_pKV aView (set_item0 (Some self) (pKV w3 aView)) w3;
                w5 = (case item0 (nextKeyView_ivar (views w4 self)) of
                        None \<Rightarrow> w4
                      | Some tmp \<Rightarrow>
                          let w0 = set_pKV tmp (remove_after0 self (pKV w4 tmp)) w4
                          in if item0 (previousKeyView_ivar (views w0 tmp)) = Some self
                             then set_nKV self (None # nKV w0 self) w0 else w0)
            in set_nKV self (set_item0 (Some aView) (nKV w5 self)) w5)"

text \<open>
  Three new views 0, 1 and 2, none of which accepts first responder status, linked by
  \<open>setNextKeyView\<close>: into a loop 0, 1, 2, 0; and into a chain 0, 1, 2 whose last view
  points back to view 1.
\<close>

definition three_views :: world where
  "three_views =
     initWithFrame (initWithFrame (initWithFrame empty_world
         0 False False False (NSMakeRect 0 0 10 10))
         1 False False False (NSMakeRect 0 0 10 10))
         2 False False False (NSMakeRect 0 0 10 10)"

definition key_loop :: world where
  "key_loop =
     setNextKeyView (setNextKeyView (setNextKeyView three_views 0 (Some 1)) 1 (Some 2)) 2 (Some 0)"

definition key_lasso :: world where
  "key_lasso =
     setNextKeyView (setNextKeyView (setNextKeyView three_views 0 (Some 1)) 1 (Some 2)) 2 (Some 1)"

text \<open>
  For stating what the loop returns: the view reached after \<open>k\<close> links, whether a view is
  hidden or has a hidden superview, and whether the loop stops at a view.
\<close>

primrec nth_link :: "(world \<Rightarrow> vid \<Rightarrow> vid option) \<Rightarrow> world \<Rightarrow> nat \<Rightarrow> vid option \<Rightarrow> vid option" where
  "nth_link link w 0 t = t"
| "nth_link link w (Suc k) t = (case t of None \<Rightarrow> None | Some x \<Rightarrow> nth_link link w k (link w x))"

inductive hidden_or_hidden_ancestor :: "world \<Rightarrow> vid \<Rightarrow> bool" for w :: world where
  self_hidden: "is_hidden (views w v) \<Longrightarrow> hidden_or_hidden_ancestor w v"
| ancestor_hidden: "super_view (views w v) = Some p \<Longrightarrow> hidden_or_hidden_ancestor w p
     \<Longrightarrow> hidden_or_hidden_ancestor w v"

definition eligible :: "world \<Rightarrow> vid \<Rightarrow> bool" where
  "eligible w v \<longleftrightarrow> acceptsFirstResponder (views w v) \<and> \<not> hidden_or_hidden_ancestor w v"

definition loop_stops :: "world \<Rightarrow> vid \<Rightarrow> vid option \<Rightarrow> bool" where
  "loop_stops w self t \<longleftrightarrow> (case t of None \<Rightarrow> True | Some x \<Rightarrow> x = self \<or> eligible w x)"


section \<open>Tracking rectangles\<close>



text \<open>\<^verbatim>\<open>-removeTrackingRect:\<close> removes the first rectangle with the tag, if there is one.\<close>

fun remove_first_tag :: "32 word \<Rightarrow> GSTrackingRect list \<Rightarrow> GSTrackingRect list option" where
  "remove_first_tag tag [] = None"
| "remove_first_tag tag (m # ms) =
     (if tr_tag m = tag then Some ms
      else case remove_first_tag tag ms of None \<Rightarrow> None | Some ms' \<Rightarrow> Some (m # ms'))"

definition removeTrackingRect :: "world \<Rightarrow> vid \<Rightarrow> 32 word \<Rightarrow> world" where
  "removeTrackingRect w self tag =
     (case remove_first_tag tag (tracking_rects (views w self)) of
        None \<Rightarrow> w
      | Some ms \<Rightarrow>
          upd_view self (\<lambda>v. let v1 = v\<lparr>tracking_rects := ms\<rparr>
                             in if ms = [] then v1\<lparr>rFlags := (rFlags v1)\<lparr>has_trkrects := False\<rparr>\<rparr>
                                else v1) w)"

section \<open>The window decoration view (GSStandardWindowDecorationView)\<close>

text \<open>
  The theme object (\<^verbatim>\<open>GSTheme\<close>) is not among the sources: the two heights the
  decoration view asks it for are parameters of the model.
\<close>

record GSTheme =
  titlebarHeight :: real
  resizebarHeight :: real

text \<open>
  The style mask is an \<^verbatim>\<open>unsigned int\<close>.  The mask bits are declared in
  \<^verbatim>\<open>AppKit/NSWindow.h\<close>, which is not among the sources; they have their AppKit values.
\<close>

definition NSTitledWindowMask :: "32 word" where "NSTitledWindowMask = 1"
definition NSClosableWindowMask :: "32 word" where "NSClosableWindowMask = 2"
definition NSMiniaturizableWindowMask :: "32 word" where "NSMiniaturizableWindowMask = 4"
definition NSResizableWindowMask :: "32 word" where "NSResizableWindowMask = 8"

record decoration =
  deco_frame :: NSRect
  hasTitleBar :: bool
  hasResizeBar :: bool
  hasCloseButton :: bool
  hasMiniaturizeButton :: bool
  isTitled :: bool
  titleBarRect :: NSRect
  resizeBarRect :: NSRect
  closeButtonRect :: NSRect
  miniaturizeButtonRect :: NSRect

text \<open>\<^verbatim>\<open>+offsets:::: forStyleMask:\<close>, returning (l, r, t, b).\<close>

definition offsets :: "GSTheme \<Rightarrow> 32 word \<Rightarrow> real \<times> real \<times> real \<times> real" where
  "offsets theme style =
     (let lrtb = (if style AND (NSTitledWindowMask OR NSClosableWindowMask
                       OR NSMiniaturizableWindowMask OR NSResizableWindowMask) \<noteq> 0
                  then 1 else 0);
          t = (if style AND (NSTitledWindowMask OR NSClosableWindowMask
                       OR NSMiniaturizableWindowMask) \<noteq> 0
               then titlebarHeight theme else lrtb);
          b = (if style AND NSResizableWindowMask \<noteq> 0 then resizebarHeight theme else lrtb)
      in (lrtb, lrtb, t, b))"

text \<open>
  \<^verbatim>\<open>-updateRects\<close>.  The two buttons are views of their own; of
  \<^verbatim>\<open>[closeButton setFrame: closeButtonRect]\<close> the model keeps the rectangle.
\<close>

definition updateRects :: "GSTheme \<Rightarrow> decoration \<Rightarrow> decoration" where
  "updateRects theme d =
     (let d1 = (if hasTitleBar d
                then let titleHeight = titlebarHeight theme
                     in d\<lparr>titleBarRect := NSMakeRect 0 (size_height (deco_frame d) - titleHeight)
                                              (size_width (deco_frame d)) titleHeight\<rparr>
                else d);
          d2 = (if hasResizeBar d1
                then d1\<lparr>resizeBarRect := NSMakeRect 0 0 (size_width (deco_frame d1))
                                            (resizebarHeight theme)\<rparr>
                else d1);
          d3 = (if hasCloseButton d2
                then d2\<lparr>closeButtonRect := NSMakeRect (size_width (deco_frame d2) - 15 - 4)
                                              (size_height (deco_frame d2) - 15 - 4) 15 15\<rparr>
                else d2);
          d4 = (if hasMiniaturizeButton d3
                then d3\<lparr>miniaturizeButtonRect := NSMakeRect 4
                                              (size_height (deco_frame d3) - 15 - 4) 15 15\<rparr>
                else d3)
      in d4)"

text \<open>
  \<^verbatim>\<open>-initWithFrame:window:\<close>.  The superclass initialiser stores the (clamped) frame; a
  new object has all its other instance variables zero.
\<close>

definition decoration_alloc :: "NSRect \<Rightarrow> decoration" where
  "decoration_alloc aFrame =
     \<lparr>deco_frame = clamp_size aFrame, hasTitleBar = False, hasResizeBar = False,
      hasCloseButton = False, hasMiniaturizeButton = False, isTitled = False,
      titleBarRect = NSZeroRect, resizeBarRect = NSZeroRect,
      closeButtonRect = NSZeroRect, miniaturizeButtonRect = NSZeroRect\<rparr>"

definition initWithFrame_window :: "GSTheme \<Rightarrow> NSRect \<Rightarrow> 32 word \<Rightarrow> decoration" where
  "initWithFrame_window theme aFrame styleMask =
     (let d0 = decoration_alloc aFrame;
          d1 = (if styleMask AND (NSTitledWindowMask OR NSClosableWindowMask
                      OR NSMiniaturizableWindowMask) \<noteq> 0
                then d0\<lparr>hasTitleBar := True\<rparr> else d0);
          d2 = (if styleMask AND NSTitledWindowMask \<noteq> 0 then d1\<lparr>isTitled := True\<rparr> else d1);
          d3 = (if styleMask AND NSClosableWindowMask \<noteq> 0
                then d2\<lparr>hasCloseButton := True\<rparr> else d2);
          d4 = (if styleMask AND NSMiniaturizableWindowMask \<noteq> 0
                then d3\<lparr>hasMiniaturizeButton := True\<rparr> else d3);
          d5 = (if styleMask AND NSResizableWindowMask \<noteq> 0
                then d4\<lparr>hasResizeBar := True\<rparr> else d4)
      in updateRects theme d5)"

text \<open>\<^verbatim>\<open>-setFrame:\<close> of the decoration view: the inherited setter, then \<^verbatim>\<open>updateRects\<close>.\<close>

definition deco_setFrame :: "GSTheme \<Rightarrow> decoration \<Rightarrow> NSRect \<Rightarrow> decoration" where
  "deco_setFrame theme d frameRect = updateRects theme (d\<lparr>deco_frame := clamp_size frameRect\<rparr>)"

definition full_style :: "32 word" where
  "full_style = NSTitledWindowMask OR NSClosableWindowMask
                  OR NSMiniaturizableWindowMask OR NSResizableWindowMask"

section \<open>Basic facts about the state\<close>

lemma rbind_Return [simp]: "rbind (Return a) f = f a"
  by (simp add: rbind_def)

lemma rbind_Raise [simp]: "rbind (Raise e w) f = Raise e w"
  by (simp add: rbind_def)

lemma rbind_OutOfFuel [simp]: "rbind OutOfFuel f = OutOfFuel"
  by (simp add: rbind_def)

lemma views_upd_view [simp]: "views (upd_view v f w) u = (if u = v then f (views w v) else views w u)"
  by (simp add: upd_view_def)

lemma windows_upd_view [simp]: "windows (upd_view v f w) = windows w"
  by (simp add: upd_view_def)

lemma trace_upd_view [simp]: "trace (upd_view v f w) = trace w"
  by (simp add: upd_view_def)

lemma views_emit [simp]: "views (emit e w) = views w"
  by (simp add: emit_def)

lemma windows_emit [simp]: "windows (emit e w) = windows w"
  by (simp add: emit_def)

lemma views_to_window [simp]: "views (to_window w v msg) = views w"
  by (simp add: to_window_def split: option.split)

lemma windows_to_window [simp]: "windows (to_window w v msg) = windows w"
  by (simp add: to_window_def split: option.split)

lemma views_warn_negative [simp]: "views (warn_negative r w) = views w"
  by (simp add: warn_negative_def Let_def)

lemma windows_warn_negative [simp]: "windows (warn_negative r w) = windows w"
  by (simp add: warn_negative_def Let_def)

lemma views_post_frame_changed [simp]: "views (post_frame_changed w v) = views w"
  by (simp add: post_frame_changed_def)

lemma views_post_bounds_changed [simp]: "views (post_bounds_changed w v) = views w"
  by (simp add: post_bounds_changed_def)

section \<open>The example states\<close>

lemma detached_fields:
  "coordinates_valid (views detached_parent_and_child u) = False"
  "super_view (views detached_parent_and_child u) = (if u = 1 then Some 0 else None)"
  "window (views detached_parent_and_child u) = None"
  "flipped_view (rFlags (views detached_parent_and_child u)) = False"
  "bounds (views detached_parent_and_child u) =
     (if u = 0 then NSMakeRect 0 0 100 100 else if u = 1 then NSMakeRect 0 0 50 50 else NSZeroRect)"
  "u = 1 \<Longrightarrow> frameMatrix (views detached_parent_and_child u) =
     \<lparr>m11 = 1, m12 = 0, m21 = 0, m22 = 1, tX = 10, tY = 10\<rparr>"
  "u = 1 \<Longrightarrow> boundsMatrix (views detached_parent_and_child u) = makeIdentityMatrix"
  by (simp_all add: detached_parent_and_child_def initWithFrame_def Let_def empty_world_def
        blank_view_def new_rFlags_def set_has_subviews_def clamp_size_def NSMakeRect_def
        setFrameOrigin_matrix_def translateToPoint_def makeIdentityMatrix_def rect_origin_def
        NSMakePoint_def)


lemma dirty_child_fields:
  "super_view (views dirty_child u) = (if u = 1 then Some 0 else None)"
  "window (views dirty_child u) = None"
  "bounds (views dirty_child u) =
     (if u = 0 then NSMakeRect 0 0 100 100 else if u = 1 then NSMakeRect 0 0 50 50 else NSZeroRect)"
  "invalidRect (views dirty_child u) = (if u = 1 then NSMakeRect 0 0 50 50 else NSZeroRect)"
  "needs_display (rFlags (views dirty_child u)) = (u = 1)"
  by (simp_all add: dirty_child_def detached_fields set_needs_display_def)
     (simp_all add: detached_parent_and_child_def initWithFrame_def Let_def empty_world_def
        blank_view_def new_rFlags_def set_has_subviews_def)


lemma dirty_child_up_ranked: "up_ranked depth_parent_and_child dirty_child"
  by (simp add: up_ranked_def dirty_child_fields depth_parent_and_child_def)







section \<open>Rectangles\<close>

lemma NSMax_fl_exact: "NSMaxX_fl exact r = NSMaxX r" "NSMaxY_fl exact r = NSMaxY r"
  by (simp_all add: NSMaxX_fl_def NSMaxY_fl_def NSMaxX_def NSMaxY_def exact_def)

lemma NSIntersectionRect_fl_exact: "NSIntersectionRect_fl exact a b = NSIntersectionRect a b"
  unfolding NSIntersectionRect_fl_def NSIntersectionRect_def NSMax_fl_exact exact_def ..

lemma NSUnionRect_fl_exact: "NSUnionRect_fl exact a b = NSUnionRect a b"
  unfolding NSUnionRect_fl_def NSUnionRect_def NSMax_fl_exact exact_def ..

lemma zero_rect_empty: "NSIsEmptyRect NSZeroRect"
  by (simp add: NSIsEmptyRect_def NSZeroRect_def NSMakeRect_def NSWidth_def NSHeight_def)

lemma equal_rects_eq: "NSEqualRects a b \<Longrightarrow> (a :: NSRect) = b"
  by (simp add: NSEqualRects_def NSMinX_def NSMinY_def NSWidth_def NSHeight_def)



lemma intersection_fl_empty_or_origin:
  "NSIntersectionRect_fl fl a b = NSZeroRect
   \<or> (NSMinX b \<le> NSMinX (NSIntersectionRect_fl fl a b)
      \<and> NSMinY b \<le> NSMinY (NSIntersectionRect_fl fl a b))"
  by (simp add: NSIntersectionRect_fl_def NSZeroRect_def Let_def NSMakeRect_def NSMinX_def
        NSMinY_def)
section \<open>Invalidation reaches every descendant\<close>

lemma only_valid_cleared_refl: "only_valid_cleared w w"
  by (simp add: only_valid_cleared_def)

lemma only_valid_cleared_trans:
  assumes "only_valid_cleared w w1" and "only_valid_cleared w1 w2"
  shows "only_valid_cleared w w2"
  unfolding only_valid_cleared_def
proof
  fix u
  from assms(1) have a: "views w1 u = views w u \<or> views w1 u = (views w u)\<lparr>coordinates_valid := False\<rparr>"
    by (simp add: only_valid_cleared_def)
  from assms(2) have b: "views w2 u = views w1 u \<or> views w2 u = (views w1 u)\<lparr>coordinates_valid := False\<rparr>"
    by (simp add: only_valid_cleared_def)
  from a b show "views w2 u = views w u \<or> views w2 u = (views w u)\<lparr>coordinates_valid := False\<rparr>"
    by auto
qed

lemma only_valid_cleared_links:
  assumes "only_valid_cleared w w'"
  shows "same_links w w'"
  unfolding same_links_def
proof
  fix u
  from assms have "views w' u = views w u \<or> views w' u = (views w u)\<lparr>coordinates_valid := False\<rparr>"
    by (simp add: only_valid_cleared_def)
  then show "sub_views (views w' u) = sub_views (views w u)
        \<and> super_view (views w' u) = super_view (views w u)
        \<and> window (views w' u) = window (views w u)
        \<and> rFlags (views w' u) = rFlags (views w u)"
    by auto
qed

lemma only_valid_cleared_mono:
  assumes "only_valid_cleared w w'"
  shows "valid_mono w w'"
  unfolding valid_mono_def
proof (intro allI impI)
  fix u assume v: "coordinates_valid (views w' u)"
  from assms have "views w' u = views w u \<or> views w' u = (views w u)\<lparr>coordinates_valid := False\<rparr>"
    by (simp add: only_valid_cleared_def)
  with v show "coordinates_valid (views w u)" by auto
qed

lemma same_links_ranked: "same_links w w' \<Longrightarrow> ranked rk w \<Longrightarrow> ranked rk w'"
  by (simp add: same_links_def ranked_def)

lemma same_links_flags: "same_links w w' \<Longrightarrow> subview_flags_ok w \<Longrightarrow> subview_flags_ok w'"
  by (simp add: same_links_def subview_flags_ok_def)

lemma same_links_refl: "same_links w w"
  by (simp add: same_links_def)

lemma same_links_trans: "same_links w w1 \<Longrightarrow> same_links w1 w2 \<Longrightarrow> same_links w w2"
  by (simp add: same_links_def)

lemma valid_mono_refl: "valid_mono w w"
  by (simp add: valid_mono_def)

lemma valid_mono_trans: "valid_mono w w1 \<Longrightarrow> valid_mono w1 w2 \<Longrightarrow> valid_mono w w2"
  by (simp add: valid_mono_def)

lemma untouched_from_refl: "untouched_from rk r w w"
  by (simp add: untouched_from_def)

lemma untouched_from_trans:
  "untouched_from rk r w w1 \<Longrightarrow> untouched_from rk r w1 w2 \<Longrightarrow> untouched_from rk r w w2"
  by (simp add: untouched_from_def)

lemma untouched_from_mono:
  "untouched_from rk r w w1 \<Longrightarrow> r \<le> r' \<Longrightarrow> untouched_from rk r' w w1"
  by (simp add: untouched_from_def)

lemma invalidate_subs_post:
  assumes IH: "\<And>w v S. ranked rk w \<Longrightarrow> subview_flags_ok w \<Longrightarrow> invalid_closed S w \<Longrightarrow> rk v < n \<Longrightarrow>
            \<exists>w'. invalidateCoordinates n w v = Return w' \<and> only_valid_cleared w w'
                 \<and> invalid_closed S w' \<and> \<not> coordinates_valid (views w' v)
                 \<and> untouched_from rk (Suc (rk v)) w w'"
  shows "ranked rk w \<Longrightarrow> subview_flags_ok w \<Longrightarrow> invalid_closed S w \<Longrightarrow>
         \<forall>c\<in>set subs. rk c < n \<and> rk c < r \<Longrightarrow>
         \<exists>w'. invalidateCoordinates_subs n w subs = Return w' \<and> only_valid_cleared w w'
              \<and> invalid_closed S w' \<and> (\<forall>c\<in>set subs. \<not> coordinates_valid (views w' c))
              \<and> untouched_from rk r w w'"
proof (induction subs arbitrary: w)
  case Nil
  then show ?case by (simp add: only_valid_cleared_refl untouched_from_refl)
next
  case (Cons sub subs)
  have "\<exists>w1. (if coordinates_valid (views w sub) then invalidateCoordinates n w sub else Return w) = Return w1
          \<and> only_valid_cleared w w1 \<and> invalid_closed S w1 \<and> \<not> coordinates_valid (views w1 sub)
          \<and> untouched_from rk r w w1"
  proof (cases "coordinates_valid (views w sub)")
    case True
    from IH [of w S sub] Cons.prems
    obtain w1 where "invalidateCoordinates n w sub = Return w1" "only_valid_cleared w w1"
      "invalid_closed S w1" "\<not> coordinates_valid (views w1 sub)"
      "untouched_from rk (Suc (rk sub)) w w1" by auto
    moreover have "Suc (rk sub) \<le> r" using Cons.prems by simp
    ultimately show ?thesis using True by (auto intro: untouched_from_mono)
  next
    case False
    with Cons.prems show ?thesis by (simp add: only_valid_cleared_refl untouched_from_refl)
  qed
  then obtain w1 where s1: "(if coordinates_valid (views w sub) then invalidateCoordinates n w sub else Return w) = Return w1"
    and c1: "only_valid_cleared w w1" and j1: "invalid_closed S w1"
    and v1: "\<not> coordinates_valid (views w1 sub)"
    and u1: "untouched_from rk r w w1" by blast
  have l1: "same_links w w1" using c1 by (rule only_valid_cleared_links)
  have "\<exists>w'. invalidateCoordinates_subs n w1 subs = Return w' \<and> only_valid_cleared w1 w'
              \<and> invalid_closed S w' \<and> (\<forall>c\<in>set subs. \<not> coordinates_valid (views w' c))
              \<and> untouched_from rk r w1 w'"
    using Cons.prems l1 j1
    by (intro Cons.IH) (auto intro: same_links_ranked same_links_flags)
  then obtain w2 where s2: "invalidateCoordinates_subs n w1 subs = Return w2"
    and c2: "only_valid_cleared w1 w2" and j2: "invalid_closed S w2"
    and v2: "\<forall>c\<in>set subs. \<not> coordinates_valid (views w2 c)"
    and u2: "untouched_from rk r w1 w2" by blast
  have m2: "valid_mono w1 w2" using c2 by (rule only_valid_cleared_mono)
  have "\<not> coordinates_valid (views w2 sub)"
    using v1 m2 by (auto simp: valid_mono_def)
  with s1 s2 c1 c2 j2 v2 u1 u2 show ?case
    by (auto intro: only_valid_cleared_trans untouched_from_trans)
qed

lemma invalidate_post:
  "ranked rk w \<Longrightarrow> subview_flags_ok w \<Longrightarrow> invalid_closed S w \<Longrightarrow> rk v < n \<Longrightarrow>
   \<exists>w'. invalidateCoordinates n w v = Return w' \<and> only_valid_cleared w w'
        \<and> invalid_closed S w' \<and> \<not> coordinates_valid (views w' v)
        \<and> untouched_from rk (Suc (rk v)) w w'"
proof (induction n arbitrary: w v S)
  case 0
  then show ?case by simp
next
  case (Suc n)
  show ?case
  proof (cases "coordinates_valid (views w v)")
    case False
    with Suc.prems show ?thesis by (simp add: only_valid_cleared_refl untouched_from_refl)
  next
    case True
    define w1 where "w1 = upd_view v (\<lambda>x. x\<lparr>coordinates_valid := False\<rparr>) w"
    define w2 where "w2 = (if valid_rects (rFlags (views w1 v))
                  then to_window w1 v (\<lambda>win. InvalidateCursorRectsForView win v) else w1)"
    have vw2: "views w2 = views w1" by (simp add: w2_def)
    have c02: "only_valid_cleared w w2"
      by (simp add: only_valid_cleared_def vw2 w1_def)
    have l02: "same_links w w2" using c02 by (rule only_valid_cleared_links)
    have r2: "ranked rk w2" and f2: "subview_flags_ok w2"
      using l02 Suc.prems by (auto intro: same_links_ranked same_links_flags)
    have j2: "invalid_closed (insert v S) w2"
      using Suc.prems(3) by (auto simp: invalid_closed_def vw2 w1_def)
    have nv2: "\<not> coordinates_valid (views w2 v)" by (simp add: vw2 w1_def)
    have u02: "untouched_from rk (Suc (rk v)) w w2"
      by (auto simp: untouched_from_def vw2 w1_def)
    have subs2: "sub_views (views w2 v) = sub_views (views w v)"
      using l02 by (simp add: same_links_def)
    have unf: "invalidateCoordinates (Suc n) w v =
        (if has_subviews (rFlags (views w2 v))
           then invalidateCoordinates_subs n w2 (sub_views (views w2 v))
           else Return w2)"
      using True by (simp add: w2_def w1_def Let_def)
    show ?thesis
    proof (cases "has_subviews (rFlags (views w2 v))")
      case False
      then have "sub_views (views w2 v) = []"
        using f2 by (auto simp: subview_flags_ok_def)
      then have e: "sub_views (views w2 v) = []" .
      have "invalid_closed S w2"
        unfolding invalid_closed_def
      proof (intro allI impI)
        fix p c assume p: "p \<notin> S" and c: "c \<in> set (sub_views (views w2 p))"
          and np: "\<not> coordinates_valid (views w2 p)"
        from c e have "p \<noteq> v" by auto
        with j2 p c np show "\<not> coordinates_valid (views w2 c)"
          by (simp add: invalid_closed_def)
      qed
      with unf False c02 nv2 u02 show ?thesis by simp
    next
      case hs: True
      have rk: "\<forall>c\<in>set (sub_views (views w2 v)). rk c < n \<and> rk c < rk v"
        using Suc.prems(1,4) subs2 by (fastforce simp: ranked_def)
      from invalidate_subs_post [where rk = rk and n = n and S = "insert v S" and w = w2
          and subs = "sub_views (views w2 v)" and r = "rk v", OF Suc.IH r2 f2 j2 rk]
      obtain w3 where s3: "invalidateCoordinates_subs n w2 (sub_views (views w2 v)) = Return w3"
        and c3: "only_valid_cleared w2 w3" and j3: "invalid_closed (insert v S) w3"
        and v3: "\<forall>c\<in>set (sub_views (views w2 v)). \<not> coordinates_valid (views w3 c)"
        and u3: "untouched_from rk (rk v) w2 w3"
        by blast
      have u03: "untouched_from rk (Suc (rk v)) w w3"
        using u02 u3 by (simp add: untouched_from_def)
      have l3: "same_links w2 w3" using c3 by (rule only_valid_cleared_links)
      have m3: "valid_mono w2 w3" using c3 by (rule only_valid_cleared_mono)
      have nv3: "\<not> coordinates_valid (views w3 v)" using nv2 m3 by (auto simp: valid_mono_def)
      have subs3: "sub_views (views w3 v) = sub_views (views w2 v)"
        using l3 by (simp add: same_links_def)
      have "invalid_closed S w3"
        unfolding invalid_closed_def
      proof (intro allI impI)
        fix p c assume p: "p \<notin> S" and c: "c \<in> set (sub_views (views w3 p))"
          and np: "\<not> coordinates_valid (views w3 p)"
        show "\<not> coordinates_valid (views w3 c)"
        proof (cases "p = v")
          case True
          with c subs3 v3 show ?thesis by simp
        next
          case False
          with j3 p c np show ?thesis by (simp add: invalid_closed_def)
        qed
      qed
      with unf hs s3 c02 c3 nv3 u03 show ?thesis
        by (auto intro: only_valid_cleared_trans)
    qed
  qed
qed

section \<open>The frame setter\<close>

lemma setFrame_store_fields [simp]:
  "frame (setFrame_store r x) = r"
  "sub_views (setFrame_store r x) = sub_views x"
  "super_view (setFrame_store r x) = super_view x"
  "window (setFrame_store r x) = window x"
  "rFlags (setFrame_store r x) = rFlags x"
  "coordinates_valid (setFrame_store r x) = coordinates_valid x"
  by (simp_all add: setFrame_store_def updateBoundsMatrix_def Let_def)

lemma same_links_closed:
  assumes "same_links w w'" and "\<forall>u. coordinates_valid (views w' u) = coordinates_valid (views w u)"
    and "invalid_closed S w"
  shows "invalid_closed S w'"
  using assms by (simp add: invalid_closed_def same_links_def)

definition resize_post :: "(vid \<Rightarrow> nat) \<Rightarrow> nat \<Rightarrow> world \<Rightarrow> world \<Rightarrow> bool" where
  "resize_post rk r w w' \<longleftrightarrow>
     same_links w w' \<and> valid_mono w w' \<and> invalid_closed {} w' \<and> untouched_from rk r w w'"

lemma resizeSubviews_loop_post:
  assumes IH: "\<And>w v R. ranked rk w \<Longrightarrow> subview_flags_ok w \<Longrightarrow> invalid_closed {} w \<Longrightarrow> rk v + 2 \<le> n \<Longrightarrow>
            \<exists>w'. setFrame n w v R = Return w' \<and> resize_post rk (Suc (rk v)) w w'"
  shows "ranked rk w \<Longrightarrow> subview_flags_ok w \<Longrightarrow> invalid_closed {} w \<Longrightarrow>
         \<forall>c\<in>set subs. rk c + 2 \<le> n \<and> rk c < r \<Longrightarrow>
         \<exists>w'. resizeSubviews_loop n w oldSize subs = Return w' \<and> resize_post rk r w w'"
proof (induction subs arbitrary: w)
  case Nil
  then show ?case
    by (simp add: resize_post_def same_links_refl valid_mono_refl untouched_from_refl)
next
  case (Cons sub subs)
  have "\<exists>w1. resizeWithOldSuperviewSize n w sub oldSize = Return w1 \<and> resize_post rk r w w1"
  proof (cases "resized_frame w sub oldSize")
    case None
    with Cons.prems show ?thesis
      by (simp add: resize_post_def same_links_refl valid_mono_refl untouched_from_refl)
  next
    case (Some newFrame)
    from IH [of w sub newFrame] Cons.prems
    obtain w1 where "setFrame n w sub newFrame = Return w1" "resize_post rk (Suc (rk sub)) w w1"
      by auto
    moreover have "Suc (rk sub) \<le> r" using Cons.prems by simp
    ultimately show ?thesis using Some
      by (auto simp: resize_post_def intro: untouched_from_mono)
  qed
  then obtain w1 where s1: "resizeWithOldSuperviewSize n w sub oldSize = Return w1"
    and p1: "resize_post rk r w w1" by blast
  have "\<exists>w'. resizeSubviews_loop n w1 oldSize subs = Return w' \<and> resize_post rk r w1 w'"
    using Cons.prems p1
    by (intro Cons.IH) (auto simp: resize_post_def intro: same_links_ranked same_links_flags)
  then obtain w2 where s2: "resizeSubviews_loop n w1 oldSize subs = Return w2"
    and p2: "resize_post rk r w1 w2" by blast
  from p1 p2 have "resize_post rk r w w2"
    by (auto simp: resize_post_def intro: same_links_trans valid_mono_trans untouched_from_trans)
  with s1 s2 show ?case by simp
qed

lemma setFrame_post:
  "ranked rk w \<Longrightarrow> subview_flags_ok w \<Longrightarrow> invalid_closed {} w \<Longrightarrow> rk v + 2 \<le> n \<Longrightarrow>
   \<exists>w'. setFrame n w v R = Return w' \<and> resize_post rk (Suc (rk v)) w w'
      \<and> frame (views w' v) = clamp_size R
      \<and> (frame_changed (views w v) (clamp_size R) \<longrightarrow> \<not> coordinates_valid (views w' v))
      \<and> (\<not> frame_changed (views w v) (clamp_size R) \<longrightarrow>
           (\<forall>u. coordinates_valid (views w' u) = coordinates_valid (views w u)))"
proof (induction n arbitrary: w v R)
  case 0
  then show ?case by simp
next
  case (Suc n)
  define old_size where "old_size = rect_size (frame (views w v))"
  define w0 where "w0 = warn_negative R w"
  define w1 where "w1 = upd_view v (setFrame_store (clamp_size R)) w0"
  have v0: "views w0 = views w" by (simp add: w0_def)
  have l1: "same_links w w1" by (simp add: same_links_def w1_def v0)
  have cv1: "\<forall>u. coordinates_valid (views w1 u) = coordinates_valid (views w u)"
    by (simp add: w1_def v0)
  have j1: "invalid_closed {} w1"
    using l1 cv1 Suc.prems(3) by (rule same_links_closed)
  have r1: "ranked rk w1" and f1: "subview_flags_ok w1"
    using l1 Suc.prems by (auto intro: same_links_ranked same_links_flags)
  have u1: "untouched_from rk (Suc (rk v)) w w1"
    by (auto simp: untouched_from_def w1_def v0)
  have m1: "valid_mono w w1" using cv1 by (simp add: valid_mono_def)
  have fr1: "frame (views w1 v) = clamp_size R" by (simp add: w1_def)
  have p1: "resize_post rk (Suc (rk v)) w w1"
    using l1 m1 j1 u1 by (simp add: resize_post_def)
  show ?case
  proof (cases "frame_changed (views w v) (clamp_size R)")
    case False
    then have "setFrame (Suc n) w v R = Return w1"
      by (simp add: Let_def w1_def w0_def)
    with p1 fr1 cv1 False show ?thesis by simp
  next
    case True
    have "\<exists>w2. invalidate_if_valid n w1 v = Return w2 \<and> only_valid_cleared w1 w2
        \<and> invalid_closed {} w2 \<and> \<not> coordinates_valid (views w2 v)
        \<and> untouched_from rk (Suc (rk v)) w1 w2"
    proof (cases "coordinates_valid (views w1 v)")
      case True
      with invalidate_post [OF r1 f1 j1, of v n] Suc.prems(4) show ?thesis
        by (simp add: invalidate_if_valid_def)
    next
      case False
      with j1 show ?thesis
        by (simp add: invalidate_if_valid_def only_valid_cleared_refl untouched_from_refl)
    qed
    then obtain w2 where s2: "invalidate_if_valid n w1 v = Return w2"
      and c2: "only_valid_cleared w1 w2" and j2: "invalid_closed {} w2"
      and nv2: "\<not> coordinates_valid (views w2 v)"
      and u2: "untouched_from rk (Suc (rk v)) w1 w2" by blast
    have l2: "same_links w1 w2" using c2 by (rule only_valid_cleared_links)
    have m2: "valid_mono w1 w2" using c2 by (rule only_valid_cleared_mono)
    have r2: "ranked rk w2" and f2: "subview_flags_ok w2"
      using l2 r1 f1 by (auto intro: same_links_ranked same_links_flags)
    have fr2: "frame (views w2 v) = clamp_size R"
    proof -
      from c2 have "views w2 v = views w1 v \<or> views w2 v = (views w1 v)\<lparr>coordinates_valid := False\<rparr>"
        by (simp add: only_valid_cleared_def)
      with fr1 show ?thesis by auto
    qed
    have p2: "resize_post rk (Suc (rk v)) w1 w2"
      using l2 m2 j2 u2 by (simp add: resize_post_def)
    have IH': "\<And>w v R. ranked rk w \<Longrightarrow> subview_flags_ok w \<Longrightarrow> invalid_closed {} w \<Longrightarrow> rk v + 2 \<le> n \<Longrightarrow>
            \<exists>w'. setFrame n w v R = Return w' \<and> resize_post rk (Suc (rk v)) w w'"
      using Suc.IH by blast
    have "\<exists>w3. resizeSubviewsWithOldSize n w2 v old_size = Return w3 \<and> resize_post rk (rk v) w2 w3"
    proof (cases "has_subviews (rFlags (views w2 v)) \<and>
                  \<not> (\<not> autoresizes_subviews (views w2 v) \<or> is_rotated_from_base (views w2 v))")
      case False
      then have "resizeSubviewsWithOldSize n w2 v old_size = Return w2" by auto
      with j2 show ?thesis
        by (simp add: resize_post_def same_links_refl valid_mono_refl untouched_from_refl)
    next
      case True
      then have e: "resizeSubviewsWithOldSize n w2 v old_size =
                    resizeSubviews_loop n w2 old_size (sub_views (views w2 v))" by simp
      have rk: "\<forall>c\<in>set (sub_views (views w2 v)). rk c + 2 \<le> n \<and> rk c < rk v"
        using r2 Suc.prems(4) by (fastforce simp: ranked_def)
      from resizeSubviews_loop_post [where rk = rk and n = n and w = w2 and r = "rk v"
          and subs = "sub_views (views w2 v)" and oldSize = old_size, OF IH' r2 f2 j2 rk] e
      show ?thesis by simp
    qed
    then obtain w3 where s3: "resizeSubviewsWithOldSize n w2 v old_size = Return w3"
      and p3: "resize_post rk (rk v) w2 w3" by blast
    have v3: "views w3 v = views w2 v"
      using p3 by (simp add: resize_post_def untouched_from_def)
    define w4 where "w4 = post_frame_changed w3 v"
    have v4: "views w4 = views w3" by (simp add: w4_def)
    have p3': "resize_post rk (Suc (rk v)) w2 w3"
      using p3 by (auto simp: resize_post_def intro: untouched_from_mono)
    have p03: "resize_post rk (Suc (rk v)) w w3"
      using p1 p2 p3'
      by (auto simp: resize_post_def intro: same_links_trans valid_mono_trans untouched_from_trans)
    have p04: "resize_post rk (Suc (rk v)) w w4"
      using p03 by (simp add: resize_post_def same_links_def valid_mono_def invalid_closed_def
          untouched_from_def v4)
    have "setFrame (Suc n) w v R = Return w4"
      using True s2 s3
      by (simp add: Let_def w4_def w1_def [symmetric] w0_def [symmetric] old_size_def [symmetric] v0
            del: resizeSubviewsWithOldSize.simps)
    with p04 True fr2 nv2 v3 v4 show ?thesis by simp
  qed
qed

section \<open>Setting the frame invalidates the cached coordinates\<close>

lemma closed_descendants:
  assumes "invalid_closed {} w" and "\<not> coordinates_valid (views w v)" and "descendant w v d"
  shows "\<not> coordinates_valid (views w d)"
  using assms(3)
proof (induction rule: descendant.induct)
  case (child c)
  with assms(1,2) show ?case by (simp add: invalid_closed_def)
next
  case (step c d)
  with assms(1) show ?case by (simp add: invalid_closed_def)
qed

lemma same_links_descendant:
  assumes "same_links w w'" and "descendant w p d"
  shows "descendant w' p d"
  using assms(2)
proof (induction rule: descendant.induct)
  case (child c)
  with assms(1) show ?case by (auto simp: same_links_def intro: descendant.child)
next
  case (step c d)
  with assms(1) show ?case by (auto simp: same_links_def intro: descendant.step)
qed

text \<open>
  C1, as the code has it.  In a well-formed view tree, with enough depth for the calls,
  \<open>setFrame\<close> returns; afterwards the frame of \<open>N\<close> is the given rectangle with a negative
  width or height replaced by 0 and the subview lists are as before.  When that rectangle
  differs from the frame \<open>N\<close> had (in origin or size), the cached coordinates of \<open>N\<close> and of
  every descendant of \<open>N\<close> are invalid.  When it does not differ, no validity flag changes.
\<close>

theorem setFrame_frame_and_invalidation:
  assumes "ranked rk w" and "subview_flags_ok w" and "invalid_closed {} w" and "rk N + 2 \<le> n"
  shows "\<exists>w'. setFrame n w N R = Return w'
           \<and> frame (views w' N) = clamp_size R
           \<and> same_links w w'
           \<and> (frame_changed (views w N) (clamp_size R) \<longrightarrow>
                \<not> coordinates_valid (views w' N)
                \<and> (\<forall>d. descendant w N d \<longrightarrow> \<not> coordinates_valid (views w' d)))
           \<and> (\<not> frame_changed (views w N) (clamp_size R) \<longrightarrow>
                (\<forall>u. coordinates_valid (views w' u) = coordinates_valid (views w u)))"
proof -
  from setFrame_post [OF assms, of R]
  obtain w' where s: "setFrame n w N R = Return w'"
    and p: "resize_post rk (Suc (rk N)) w w'"
    and f: "frame (views w' N) = clamp_size R"
    and c: "frame_changed (views w N) (clamp_size R) \<longrightarrow> \<not> coordinates_valid (views w' N)"
    and u: "\<not> frame_changed (views w N) (clamp_size R) \<longrightarrow>
           (\<forall>u. coordinates_valid (views w' u) = coordinates_valid (views w u))"
    by blast
  have l: "same_links w w'" and j: "invalid_closed {} w'"
    using p by (simp_all add: resize_post_def)
  have "\<not> coordinates_valid (views w' d)"
    if "frame_changed (views w N) (clamp_size R)" and "descendant w N d" for d
  proof -
    from that(1) c have nv: "\<not> coordinates_valid (views w' N)" by simp
    from l that(2) have "descendant w' N d" by (rule same_links_descendant)
    with j nv show ?thesis by (rule closed_descendants)
  qed
  with s f l c u show ?thesis by blast
qed

lemma sub_views_parent_and_child:
  "sub_views (views parent_and_child p) = (if p = 0 then [1] else [])"
  by (simp add: parent_and_child_def detached_parent_and_child_def initWithFrame_def Let_def empty_world_def blank_view_def
        set_has_subviews_def)

lemma valid_parent_and_child:
  "coordinates_valid (views parent_and_child p) = (p = 0 \<or> p = 1)"
  by (simp add: parent_and_child_def detached_parent_and_child_def initWithFrame_def Let_def empty_world_def blank_view_def
        set_has_subviews_def)

lemma parent_and_child_wf:
  "ranked rank_parent_and_child parent_and_child"
  "subview_flags_ok parent_and_child"
  "invalid_closed {} parent_and_child"
    apply (simp add: ranked_def sub_views_parent_and_child rank_parent_and_child_def)
   apply (simp add: subview_flags_ok_def sub_views_parent_and_child)
   apply (simp add: parent_and_child_def detached_parent_and_child_def initWithFrame_def Let_def empty_world_def blank_view_def
        set_has_subviews_def)
  apply (simp add: invalid_closed_def sub_views_parent_and_child valid_parent_and_child)
  done

theorem setFrame_frame_and_invalidation_witness:
  "ranked rank_parent_and_child parent_and_child
   \<and> subview_flags_ok parent_and_child
   \<and> invalid_closed {} parent_and_child
   \<and> rank_parent_and_child 0 + 2 \<le> 3
   \<and> coordinates_valid (views parent_and_child 0)
   \<and> coordinates_valid (views parent_and_child 1)
   \<and> (\<exists>w'. setFrame 3 parent_and_child 0 (NSMakeRect 5 5 (- 20) 80) = Return w'
         \<and> frame (views w' 0) = NSMakeRect 5 5 0 80
         \<and> \<not> coordinates_valid (views w' 0)
         \<and> \<not> coordinates_valid (views w' 1))"
proof -
  have h4: "rank_parent_and_child 0 + 2 \<le> 3" by (simp add: rank_parent_and_child_def)
  have d: "descendant parent_and_child 0 1"
    by (rule descendant.child) (simp add: sub_views_parent_and_child)
  have c: "clamp_size (NSMakeRect 5 5 (- 20) 80) = NSMakeRect 5 5 0 80"
    by (simp add: clamp_size_def NSMakeRect_def Let_def)
  have ch: "frame_changed (views parent_and_child 0) (NSMakeRect 5 5 0 80)"
    by (simp add: frame_changed_def parent_and_child_def detached_parent_and_child_def initWithFrame_def Let_def
          set_has_subviews_def NSMakeRect_def NSMinX_def clamp_size_def)
  from setFrame_frame_and_invalidation [OF parent_and_child_wf h4, of "NSMakeRect 5 5 (- 20) 80"]
    d c ch parent_and_child_wf h4
  show ?thesis by (auto simp: valid_parent_and_child)
qed

text \<open>
  C1 as stated fails.  A new view with frame (0, 0, 100, 100) is asked for its visible
  rectangle, which makes its cached coordinates valid; setting the frame it already has
  stores that frame and leaves the cached coordinates valid.
\<close>

theorem setFrame_same_frame_keeps_valid:
  "rbind (visibleRect (Suc 0) (initWithFrame empty_world 0 False False False (NSMakeRect 0 0 100 100)) 0)
     (\<lambda>(w1, r). rbind (setFrame (Suc (Suc 0)) w1 0 (NSMakeRect 0 0 100 100))
        (\<lambda>w2. Return (coordinates_valid (views w1 0), frame (views w2 0),
                       coordinates_valid (views w2 0))))
   = Return (True, NSMakeRect 0 0 100 100, True)"
  by (simp add: visibleRect_def visibleRect_with_def initWithFrame_def Let_def empty_world_def
        warn_negative_def clamp_size_def NSMakeRect_def set_identity_coordinates_def
        frame_changed_def setFrame_store_def NSMinX_def NSMinY_def NSWidth_def NSHeight_def
        upd_view_def)

section \<open>Rebuilding the coordinates of a view without a window\<close>

lemma rebuildCoordinates_no_superview:
  assumes "\<not> coordinates_valid (views w v)" and "super_view (views w v) = None"
  shows "rebuildCoordinates (Suc n) w v =
           Return (upd_view v (\<lambda>x. set_identity_coordinates (bounds x) (x\<lparr>coordinates_valid := True\<rparr>)) w)"
  using assms
  by (auto simp add: Let_def set_identity_coordinates_def upd_view_def fun_eq_iff)

lemma rebuildCoordinates_child_of_root:
  assumes "\<not> coordinates_valid (views w v)" and "super_view (views w v) = Some p" and "p \<noteq> v"
    and "\<not> coordinates_valid (views w p)" and "super_view (views w p) = None"
    and "window (views w v) = window (views w p)"
    and "flipped_view (rFlags (views w v)) = flipped_view (rFlags (views w p))"
  shows "\<exists>w'. rebuildCoordinates (Suc (Suc n)) w v = Return w'
     \<and> matrixToWindow_ivar (views w' v)
         = prependTransform (prependTransform makeIdentityMatrix (frameMatrix (views w v)))
             (boundsMatrix (views w v))
     \<and> visibleRect_ivar (views w' v)
         = NSIntersectionRect
             (convert_rect_using_matrices (bounds (views w p)) makeIdentityMatrix
                (invert (prependTransform (prependTransform makeIdentityMatrix (frameMatrix (views w v)))
                   (boundsMatrix (views w v)))))
             (bounds (views w v))
     \<and> window (views w' v) = window (views w v)"
proof -
  define w1 where "w1 = upd_view v (\<lambda>x. x\<lparr>coordinates_valid := True\<rparr>) w"
  define w2 where "w2 = upd_view v (\<lambda>v. if window v = None
                                   then set_identity_coordinates NSZeroRect v else v) w1"
  have p2: "views w2 p = views w p" using assms(3) by (simp add: w2_def w1_def)
  define w3 where "w3 = upd_view p (\<lambda>x. set_identity_coordinates (bounds x) (x\<lparr>coordinates_valid := True\<rparr>)) w2"
  have m: "matrixToWindow_with (rebuildCoordinates (Suc n)) w2 p = Return (w3, makeIdentityMatrix)"
    using assms(4,5) p2
    by (simp add: matrixToWindow_with_def rebuildCoordinates_no_superview w3_def
          set_identity_coordinates_def del: rebuildCoordinates.simps)
  define w4 where "w4 = upd_view v (compose_matrices makeIdentityMatrix (flipped_view (rFlags (views w2 p)))) w3"
  have p4: "views w4 p = views w3 p" using assms(3) by (simp add: w4_def)
  have vr: "visibleRect_with (rebuildCoordinates (Suc n)) w4 p = Return (w4, bounds (views w p))"
    using p2 by (simp add: visibleRect_with_def p4 w3_def set_identity_coordinates_def
          del: rebuildCoordinates.simps)
  have v2: "frameMatrix (views w2 v) = frameMatrix (views w v)"
      "boundsMatrix (views w2 v) = boundsMatrix (views w v)"
      "bounds (views w2 v) = bounds (views w v)"
      "rFlags (views w2 v) = rFlags (views w v)"
      "window (views w2 v) = window (views w v)"
      "super_view (views w2 v) = Some p"
      "coordinates_valid (views w2 v)"
    using assms(2) by (simp_all add: w2_def w1_def set_identity_coordinates_def)
  have v3: "views w3 v = views w2 v" using assms(3) by (simp add: w3_def)
  let ?M = "prependTransform (prependTransform makeIdentityMatrix (frameMatrix (views w v)))
             (boundsMatrix (views w v))"
  have v4: "matrixToWindow_ivar (views w4 v) = ?M"
      "matrixFromWindow_ivar (views w4 v) = invert ?M"
      "bounds (views w4 v) = bounds (views w v)"
      "window (views w4 v) = window (views w v)"
      "coordinates_valid (views w4 v)"
    using assms(7) p2
    by (simp_all add: w4_def v3 v2 compose_matrices_def Let_def)
  have p4': "window (views w4 p) = window (views w p)" "coordinates_valid (views w4 p)"
      "matrixToWindow_ivar (views w4 p) = makeIdentityMatrix"
    using p2 by (simp_all add: p4 w3_def set_identity_coordinates_def)
  have cv: "convertRect_fromView_with (rebuildCoordinates (Suc n)) w4 v (bounds (views w p)) (Some p)
      = Return (w4, convert_rect_using_matrices (bounds (views w p)) makeIdentityMatrix (invert ?M))"
    using assms(3,6)
    by (simp add: convertRect_fromView_with_def matrixToWindow_with_def v4 p4'
          del: rebuildCoordinates.simps)
  have "rebuildCoordinates (Suc (Suc n)) w v =
      Return (upd_view v (\<lambda>x. x\<lparr>visibleRect_ivar := NSIntersectionRect
         (convert_rect_using_matrices (bounds (views w p)) makeIdentityMatrix (invert ?M)) (bounds x)\<rparr>) w4)"
    using assms(1)
    apply (subst rebuildCoordinates.simps)
    apply (unfold Let_def)
    apply (fold w1_def)
    apply (fold w2_def)
    apply (simp add: v2 m w4_def [symmetric] vr cv del: rebuildCoordinates.simps)
    done
  then show ?thesis
    by (simp add: v4)
qed

lemma child_matrix:
  "prependTransform (prependTransform makeIdentityMatrix
      \<lparr>m11 = 1, m12 = 0, m21 = 0, m22 = 1, tX = 10, tY = 10\<rparr>) makeIdentityMatrix
   = \<lparr>m11 = 1, m12 = 0, m21 = 0, m22 = 1, tX = 10, tY = 10\<rparr>"
  by (simp add: prependTransform_def makeIdentityMatrix_def)

lemma child_matrix_inverse:
  "invert \<lparr>m11 = 1, m12 = 0, m21 = 0, m22 = 1, tX = 10, tY = 10\<rparr>
   = \<lparr>m11 = 1, m12 = 0, m21 = 0, m22 = 1, tX = - 10, tY = - 10\<rparr>"
  by (simp add: invert_def determinant_def Let_def)

lemma child_convert:
  "convert_rect_using_matrices (NSMakeRect 0 0 100 100) makeIdentityMatrix
     \<lparr>m11 = 1, m12 = 0, m21 = 0, m22 = 1, tX = - 10, tY = - 10\<rparr>
   = NSMakeRect (- 10) (- 10) 100 100"
  by (simp add: convert_rect_using_matrices_def rect_corners_def bounding_box_def
        pointInMatrixSpace_def makeIdentityMatrix_def NSMakeRect_def NSMakePoint_def Let_def)

lemma child_intersection:
  "NSIntersectionRect (NSMakeRect (- 10) (- 10) 100 100) (NSMakeRect 0 0 50 50) = NSMakeRect 0 0 50 50"
  by (simp add: NSIntersectionRect_def NSMakeRect_def NSMaxX_def NSMaxY_def NSMinX_def NSMinY_def
        Let_def)

lemma visibleRect_detached_child:
  "rbind (visibleRect 2 detached_parent_and_child 1)
          (\<lambda>(w2, r). Return (window (views w2 1), r, matrixToWindow_ivar (views w2 1)))
     = Return (None, NSMakeRect 0 0 50 50,
               \<lparr>m11 = 1, m12 = 0, m21 = 0, m22 = 1, tX = 10, tY = 10\<rparr>)"
proof -
  from rebuildCoordinates_child_of_root [of detached_parent_and_child 1 0 0]
  obtain w' where r: "rebuildCoordinates (Suc (Suc 0)) detached_parent_and_child 1 = Return w'"
    and m: "matrixToWindow_ivar (views w' 1) = \<lparr>m11 = 1, m12 = 0, m21 = 0, m22 = 1, tX = 10, tY = 10\<rparr>"
    and v: "visibleRect_ivar (views w' 1) = NSMakeRect 0 0 50 50"
    and w: "window (views w' 1) = None"
    by (auto simp: detached_fields child_matrix child_matrix_inverse child_convert
          child_intersection simp del: rebuildCoordinates.simps)
  show ?thesis
    using r m v w
    by (simp add: visibleRect_def visibleRect_with_def detached_fields numeral_2_eq_2
          del: rebuildCoordinates.simps)
qed

text \<open>
  C4.  A view created with frame (0, 0, 100, 100) and never added to a view or a window has
  no window and no superview; its visible rectangle is its bounds (0, 0, 100, 100), which
  is not empty: the branch for a missing superview overwrites what the branch for a
  missing window stored.  With a superview and no window (view 1 of the detached example
  state, whose frame origin is (10, 10)), the visible rectangle is (0, 0, 50, 50) and the
  matrix to the window is the translation by (10, 10), not the identity.
\<close>

theorem visibleRect_without_window:
  "rbind (visibleRect (Suc 0) (initWithFrame empty_world 0 False False False (NSMakeRect 0 0 100 100)) 0)
     (\<lambda>(w1, r). Return (window (views w1 0), super_view (views w1 0), r, NSIsEmptyRect r))
   = Return (None, None, NSMakeRect 0 0 100 100, False)
   \<and> rbind (visibleRect 2 detached_parent_and_child 1)
          (\<lambda>(w2, r). Return (window (views w2 1), r, matrixToWindow_ivar (views w2 1)))
     = Return (None, NSMakeRect 0 0 50 50,
               \<lparr>m11 = 1, m12 = 0, m21 = 0, m22 = 1, tX = 10, tY = 10\<rparr>)"
proof
  show "rbind (visibleRect (Suc 0) (initWithFrame empty_world 0 False False False (NSMakeRect 0 0 100 100)) 0)
     (\<lambda>(w1, r). Return (window (views w1 0), super_view (views w1 0), r, NSIsEmptyRect r))
   = Return (None, None, NSMakeRect 0 0 100 100, False)"
    by (simp add: visibleRect_def visibleRect_with_def initWithFrame_def Let_def empty_world_def
        warn_negative_def clamp_size_def NSMakeRect_def set_identity_coordinates_def
        NSIsEmptyRect_def NSWidth_def NSHeight_def upd_view_def)
next
  show "rbind (visibleRect 2 detached_parent_and_child 1)
          (\<lambda>(w2, r). Return (window (views w2 1), r, matrixToWindow_ivar (views w2 1)))
     = Return (None, NSMakeRect 0 0 50 50,
               \<lparr>m11 = 1, m12 = 0, m21 = 0, m22 = 1, tX = 10, tY = 10\<rparr>)"
    by (rule visibleRect_detached_child)
qed

section \<open>Rebuilding the coordinates returns and changes only the cache\<close>

lemma strip_cache_simps [simp]:
  "strip_cache (v\<lparr>coordinates_valid := b\<rparr>) = strip_cache v"
  "strip_cache (v\<lparr>visibleRect_ivar := r\<rparr>) = strip_cache v"
  "strip_cache (set_identity_coordinates r v) = strip_cache v"
  "strip_cache (compose_matrices M f v) = strip_cache v"
  by (simp_all add: strip_cache_def set_identity_coordinates_def compose_matrices_def Let_def)

lemma strip_cache_fields:
  assumes "strip_cache a = strip_cache b"
  shows "frame a = frame b" "bounds a = bounds b" "frameMatrix a = frameMatrix b"
    "boundsMatrix a = boundsMatrix b" "super_view a = super_view b" "sub_views a = sub_views b"
    "window a = window b" "tracking_rects a = tracking_rects b" "rFlags a = rFlags b"
    "invalidRect a = invalidRect b" "isOpaque a = isOpaque b" "is_hidden a = is_hidden b"
    "cursor_rects a = cursor_rects b"
proof -
  have "frame (strip_cache a) = frame (strip_cache b)" using assms by simp
  then show "frame a = frame b" by (simp add: strip_cache_def)
  have "bounds (strip_cache a) = bounds (strip_cache b)" using assms by simp
  then show "bounds a = bounds b" by (simp add: strip_cache_def)
  have "frameMatrix (strip_cache a) = frameMatrix (strip_cache b)" using assms by simp
  then show "frameMatrix a = frameMatrix b" by (simp add: strip_cache_def)
  have "boundsMatrix (strip_cache a) = boundsMatrix (strip_cache b)" using assms by simp
  then show "boundsMatrix a = boundsMatrix b" by (simp add: strip_cache_def)
  have "super_view (strip_cache a) = super_view (strip_cache b)" using assms by simp
  then show "super_view a = super_view b" by (simp add: strip_cache_def)
  have "sub_views (strip_cache a) = sub_views (strip_cache b)" using assms by simp
  then show "sub_views a = sub_views b" by (simp add: strip_cache_def)
  have "window (strip_cache a) = window (strip_cache b)" using assms by simp
  then show "window a = window b" by (simp add: strip_cache_def)
  have "tracking_rects (strip_cache a) = tracking_rects (strip_cache b)" using assms by simp
  then show "tracking_rects a = tracking_rects b" by (simp add: strip_cache_def)
  have "rFlags (strip_cache a) = rFlags (strip_cache b)" using assms by simp
  then show "rFlags a = rFlags b" by (simp add: strip_cache_def)
  have "invalidRect (strip_cache a) = invalidRect (strip_cache b)" using assms by simp
  then show "invalidRect a = invalidRect b" by (simp add: strip_cache_def)
  have "isOpaque (strip_cache a) = isOpaque (strip_cache b)" using assms by simp
  then show "isOpaque a = isOpaque b" by (simp add: strip_cache_def)
  have "is_hidden (strip_cache a) = is_hidden (strip_cache b)" using assms by simp
  then show "is_hidden a = is_hidden b" by (simp add: strip_cache_def)
  have "cursor_rects (strip_cache a) = cursor_rects (strip_cache b)" using assms by simp
  then show "cursor_rects a = cursor_rects b" by (simp add: strip_cache_def)
qed

lemma cache_only_refl: "cache_only w w"
  by (simp add: cache_only_def)

lemma cache_only_trans: "cache_only w w1 \<Longrightarrow> cache_only w1 w2 \<Longrightarrow> cache_only w w2"
  by (simp add: cache_only_def)

lemma cache_only_view: "cache_only w w' \<Longrightarrow> strip_cache (views w' u) = strip_cache (views w u)"
  by (simp add: cache_only_def)

lemma cache_only_upd:
  assumes "strip_cache (f (views w v)) = strip_cache (views w v)"
  shows "cache_only w (upd_view v f w)"
  using assms by (simp add: cache_only_def)

lemma cache_only_super_view:
  "cache_only w w' \<Longrightarrow> super_view (views w' u) = super_view (views w u)"
  by (rule strip_cache_fields(5)) (rule cache_only_view)

lemma cache_only_window:
  "cache_only w w' \<Longrightarrow> window (views w' u) = window (views w u)"
  by (rule strip_cache_fields(7)) (rule cache_only_view)

lemma cache_only_up_ranked: "cache_only w w' \<Longrightarrow> up_ranked dp w \<Longrightarrow> up_ranked dp w'"
  by (simp add: up_ranked_def cache_only_super_view)

lemma cache_only_windows_consistent:
  "cache_only w w' \<Longrightarrow> windows_consistent w \<Longrightarrow> windows_consistent w'"
  by (simp add: windows_consistent_def cache_only_super_view cache_only_window)

lemma valid_kept_refl: "valid_kept w w"
  by (simp add: valid_kept_def)

lemma valid_kept_same: "valid_kept w w' \<Longrightarrow> coordinates_valid (views w u) \<Longrightarrow> views w' u = views w u"
  by (simp add: valid_kept_def)

lemma valid_kept_valid:
  "valid_kept w w' \<Longrightarrow> coordinates_valid (views w u) \<Longrightarrow> coordinates_valid (views w' u)"
  by (simp add: valid_kept_def)

lemma valid_kept_fresh:
  "valid_kept w w' \<Longrightarrow> \<not> coordinates_valid (views w u) \<Longrightarrow> coordinates_valid (views w' u) \<Longrightarrow>
   matrixFromWindow_ivar (views w' u) = invert (matrixToWindow_ivar (views w' u))"
  by (simp add: valid_kept_def)

lemma valid_kept_trans:
  assumes a: "valid_kept w w1" and b: "valid_kept w1 w2"
  shows "valid_kept w w2"
  unfolding valid_kept_def
proof (intro conjI allI impI)
  fix u assume v: "coordinates_valid (views w u)"
  from a v have e: "views w1 u = views w u" by (rule valid_kept_same)
  with v have "coordinates_valid (views w1 u)" by simp
  with b have "views w2 u = views w1 u" by (rule valid_kept_same)
  with e show "views w2 u = views w u" by simp
next
  fix u assume n: "\<not> coordinates_valid (views w u)" and v: "coordinates_valid (views w2 u)"
  show "matrixFromWindow_ivar (views w2 u) = invert (matrixToWindow_ivar (views w2 u))"
  proof (cases "coordinates_valid (views w1 u)")
    case True
    with b have e: "views w2 u = views w1 u" by (rule valid_kept_same)
    from a n True
    have "matrixFromWindow_ivar (views w1 u) = invert (matrixToWindow_ivar (views w1 u))"
      by (rule valid_kept_fresh)
    with e show ?thesis by simp
  next
    case False
    with b show ?thesis using v by (rule valid_kept_fresh)
  qed
qed

lemma invert_identity: "invert makeIdentityMatrix = makeIdentityMatrix"
  by (simp add: invert_def determinant_def makeIdentityMatrix_def Let_def)


definition rebuild_ok :: "(vid \<Rightarrow> nat) \<Rightarrow> nat \<Rightarrow> (world \<Rightarrow> vid \<Rightarrow> world result) \<Rightarrow> bool" where
  "rebuild_ok dp n rebuild \<longleftrightarrow>
     (\<forall>w v. up_ranked dp w \<longrightarrow> windows_consistent w \<longrightarrow> dp v < n \<longrightarrow>
        (\<exists>w'. rebuild w v = Return w' \<and> cache_only w w' \<and> valid_kept w w'
               \<and> coordinates_valid (views w' v)))"

lemma rebuild_ok_guarded:
  assumes "rebuild_ok dp n rebuild" and "up_ranked dp w" and "windows_consistent w" and "dp v < n"
  shows "\<exists>w'. (if \<not> coordinates_valid (views w v) then rebuild w v else Return w) = Return w'
           \<and> cache_only w w' \<and> valid_kept w w' \<and> coordinates_valid (views w' v)
           \<and> (coordinates_valid (views w v) \<longrightarrow> w' = w)"
proof (cases "coordinates_valid (views w v)")
  case True
  then show ?thesis by (simp add: cache_only_refl valid_kept_refl)
next
  case False
  with assms show ?thesis by (simp add: rebuild_ok_def)
qed

lemma matrixToWindow_with_ok:
  assumes "rebuild_ok dp n rebuild" and "up_ranked dp w" and "windows_consistent w" and "dp v < n"
  shows "\<exists>w'. matrixToWindow_with rebuild w v = Return (w', matrixToWindow_ivar (views w' v))
           \<and> cache_only w w' \<and> valid_kept w w' \<and> coordinates_valid (views w' v)
           \<and> (coordinates_valid (views w v) \<longrightarrow> w' = w)"
  using rebuild_ok_guarded [OF assms]
  by (auto simp: matrixToWindow_with_def)

lemma matrixFromWindow_with_ok:
  assumes "rebuild_ok dp n rebuild" and "up_ranked dp w" and "windows_consistent w" and "dp v < n"
  shows "\<exists>w'. matrixFromWindow_with rebuild w v = Return (w', matrixFromWindow_ivar (views w' v))
           \<and> cache_only w w' \<and> valid_kept w w' \<and> coordinates_valid (views w' v)
           \<and> (coordinates_valid (views w v) \<longrightarrow> w' = w)"
  using rebuild_ok_guarded [OF assms]
  by (auto simp: matrixFromWindow_with_def)

lemma visibleRect_with_ok:
  assumes "rebuild_ok dp n rebuild" and "up_ranked dp w" and "windows_consistent w" and "dp v < n"
  shows "\<exists>w'. visibleRect_with rebuild w v = Return (w', visibleRect_ivar (views w' v))
           \<and> cache_only w w' \<and> valid_kept w w' \<and> coordinates_valid (views w' v)
           \<and> (coordinates_valid (views w v) \<longrightarrow> w' = w)"
  using rebuild_ok_guarded [OF assms]
  by (auto simp: visibleRect_with_def)

lemma convertRect_fromView_with_valid:
  assumes "a \<noteq> v" and "window (views w v) = window (views w a)"
    and "coordinates_valid (views w a)" and "coordinates_valid (views w v)"
  shows "convertRect_fromView_with rebuild w v r (Some a) =
         Return (w, convert_rect_using_matrices r (matrixToWindow_ivar (views w a))
                      (matrixFromWindow_ivar (views w v)))"
  using assms by (simp add: convertRect_fromView_with_def matrixToWindow_with_def)

lemma rebuild_step:
  assumes IH: "rebuild_ok dp n (rebuildCoordinates n)"
    and r: "up_ranked dp w" and c: "windows_consistent w" and d: "dp v < Suc n"
    and nv: "\<not> coordinates_valid (views w v)"
  shows "\<exists>w'. rebuildCoordinates (Suc n) w v = Return w' \<and> cache_only w w' \<and> valid_kept w w'
               \<and> coordinates_valid (views w' v)"
proof -
  define w1 where "w1 = upd_view v (\<lambda>v. v\<lparr>coordinates_valid := True\<rparr>) w"
  define w2 where "w2 = upd_view v (\<lambda>v. if window v = None
                                   then set_identity_coordinates NSZeroRect v else v) w1"
  have c02: "cache_only w w2"
    by (simp add: cache_only_def w2_def w1_def)
  have o2: "views w2 u = views w u" if "u \<noteq> v" for u
    using that by (simp add: w2_def w1_def)
  have v2: "coordinates_valid (views w2 v)"
    by (simp add: w2_def w1_def set_identity_coordinates_def)
  have r2: "up_ranked dp w2" using c02 r by (rule cache_only_up_ranked)
  have c2: "windows_consistent w2" using c02 c by (rule cache_only_windows_consistent)
  show ?thesis
  proof (cases "super_view (views w2 v)")
    case None
    define w3 where "w3 = upd_view v (\<lambda>v. set_identity_coordinates (bounds v) v) w2"
    have e: "rebuildCoordinates (Suc n) w v = Return w3"
      using nv
      apply (subst rebuildCoordinates.simps)
      apply (unfold Let_def)
      apply (fold w1_def)
      apply (fold w2_def)
      apply (simp add: None w3_def del: rebuildCoordinates.simps)
      done
    have "cache_only w2 w3" by (simp add: cache_only_def w3_def)
    with c02 have "cache_only w w3" by (rule cache_only_trans)
    moreover have "valid_kept w w3"
      unfolding valid_kept_def
    proof (intro conjI allI impI)
      fix u assume "coordinates_valid (views w u)"
      with nv have "u \<noteq> v" by auto
      then show "views w3 u = views w u" by (simp add: w3_def o2)
    next
      fix u assume n: "\<not> coordinates_valid (views w u)" and v: "coordinates_valid (views w3 u)"
      have "u = v"
      proof (rule ccontr)
        assume "u \<noteq> v"
        then have "views w3 u = views w u" by (simp add: w3_def o2)
        with n v show False by simp
      qed
      then show "matrixFromWindow_ivar (views w3 u) = invert (matrixToWindow_ivar (views w3 u))"
        by (simp add: w3_def set_identity_coordinates_def invert_identity)
    qed
    moreover have "coordinates_valid (views w3 v)"
      using v2 by (simp add: w3_def set_identity_coordinates_def)
    ultimately show ?thesis using e by simp
  next
    case (Some p)
    have dpp: "dp p < dp v" using r2 Some by (simp add: up_ranked_def)
    then have pv: "p \<noteq> v" by auto
    have dpn: "dp p < n" using dpp d by simp
    have win: "window (views w2 p) = window (views w2 v)"
      using c2 Some by (simp add: windows_consistent_def)
    from matrixToWindow_with_ok [OF IH r2 c2 dpn]
    obtain w3 where m: "matrixToWindow_with (rebuildCoordinates n) w2 p
                        = Return (w3, matrixToWindow_ivar (views w3 p))"
      and c23: "cache_only w2 w3" and k23: "valid_kept w2 w3"
      and vp3: "coordinates_valid (views w3 p)" by blast
    define w4 where "w4 = upd_view v (compose_matrices (matrixToWindow_ivar (views w3 p))
                                       (flipped_view (rFlags (views w2 p)))) w3"
    have c34: "cache_only w3 w4" by (simp add: cache_only_def w4_def)
    have p4: "views w4 p = views w3 p" using pv by (simp add: w4_def)
    have vv3: "coordinates_valid (views w3 v)" using k23 v2 by (rule valid_kept_valid)
    have vv4: "coordinates_valid (views w4 v)"
      using vv3 by (simp add: w4_def compose_matrices_def Let_def)
    have vp4: "coordinates_valid (views w4 p)" using vp3 by (simp add: p4)
    have vr: "visibleRect_with (rebuildCoordinates n) w4 p = Return (w4, visibleRect_ivar (views w4 p))"
      using vp4 by (simp add: visibleRect_with_def)
    have c24: "cache_only w2 w4" using c23 c34 by (rule cache_only_trans)
    have win4: "window (views w4 v) = window (views w4 p)"
      using win by (simp add: cache_only_window [OF c24])
    have cv: "convertRect_fromView_with (rebuildCoordinates n) w4 v (visibleRect_ivar (views w4 p)) (Some p)
        = Return (w4, convert_rect_using_matrices (visibleRect_ivar (views w4 p))
                   (matrixToWindow_ivar (views w4 p)) (matrixFromWindow_ivar (views w4 v)))"
      using pv win4 vp4 vv4 by (rule convertRect_fromView_with_valid)
    define w5 where "w5 = upd_view v (\<lambda>x. x\<lparr>visibleRect_ivar := NSIntersectionRect
        (convert_rect_using_matrices (visibleRect_ivar (views w4 p))
                   (matrixToWindow_ivar (views w4 p)) (matrixFromWindow_ivar (views w4 v)))
        (bounds x)\<rparr>) w4"
    have e: "rebuildCoordinates (Suc n) w v = Return w5"
      using nv
      apply (subst rebuildCoordinates.simps)
      apply (unfold Let_def)
      apply (fold w1_def)
      apply (fold w2_def)
      apply (simp add: Some m w4_def [symmetric] vr cv w5_def del: rebuildCoordinates.simps)
      done
    have c45: "cache_only w4 w5" by (simp add: cache_only_def w5_def)
    have "cache_only w w5"
      using c02 c24 c45 by (blast intro: cache_only_trans)
    moreover have "valid_kept w w5"
      unfolding valid_kept_def
    proof (intro conjI allI impI)
      fix u assume vu: "coordinates_valid (views w u)"
      with nv have uv: "u \<noteq> v" by auto
      then have e2: "views w2 u = views w u" by (rule o2)
      with vu have "coordinates_valid (views w2 u)" by simp
      with k23 have "views w3 u = views w2 u" by (rule valid_kept_same)
      with e2 uv show "views w5 u = views w u" by (simp add: w5_def w4_def)
    next
      fix u assume n: "\<not> coordinates_valid (views w u)" and v: "coordinates_valid (views w5 u)"
      show "matrixFromWindow_ivar (views w5 u) = invert (matrixToWindow_ivar (views w5 u))"
      proof (cases "u = v")
        case True
        then show ?thesis by (simp add: w5_def w4_def compose_matrices_def Let_def)
      next
        case False
        then have e5: "views w5 u = views w3 u" by (simp add: w5_def w4_def)
        from False have "views w2 u = views w u" by (rule o2)
        with n have "\<not> coordinates_valid (views w2 u)" by simp
        moreover from v e5 have "coordinates_valid (views w3 u)" by simp
        ultimately have "matrixFromWindow_ivar (views w3 u) = invert (matrixToWindow_ivar (views w3 u))"
          using k23 by (intro valid_kept_fresh)
        with e5 show ?thesis by simp
      qed
    qed
    moreover have "coordinates_valid (views w5 v)" using vv4 by (simp add: w5_def)
    ultimately show ?thesis using e by simp
  qed
qed

lemma rebuild_total: "rebuild_ok dp n (rebuildCoordinates n)"
proof (induction n)
  case 0
  then show ?case by (simp add: rebuild_ok_def)
next
  case (Suc n)
  show ?case
    unfolding rebuild_ok_def
  proof (intro allI impI)
    fix w v
    assume r: "up_ranked dp w" and c: "windows_consistent w" and d: "dp v < Suc n"
    show "\<exists>w'. rebuildCoordinates (Suc n) w v = Return w' \<and> cache_only w w' \<and> valid_kept w w'
               \<and> coordinates_valid (views w' v)"
    proof (cases "coordinates_valid (views w v)")
      case True
      then show ?thesis by (simp add: cache_only_refl valid_kept_refl)
    next
      case False
      with Suc r c d show ?thesis by (rule rebuild_step)
    qed
  qed
qed

section \<open>The conversions return\<close>


lemma convertRect_fromView_total:
  assumes r: "up_ranked dp w" and c: "windows_consistent w" and d: "\<forall>u. dp u < n"
    and t: "\<forall>a. (case aView0 of None \<Rightarrow> window_base_view w v | Some a \<Rightarrow> Some a) = Some a
                 \<longrightarrow> window (views w a) = window (views w v)"
  shows "\<exists>w' r. convertRect_fromView n w v aRect aView0 = Return (w', r)
           \<and> cache_only w w' \<and> valid_kept w w'"
proof (cases "case aView0 of None \<Rightarrow> window_base_view w v | Some a \<Rightarrow> Some a")
  case None
  then show ?thesis
    by (simp add: convertRect_fromView_def convertRect_fromView_with_def cache_only_refl
          valid_kept_refl)
next
  case (Some a)
  show ?thesis
  proof (cases "a = v")
    case True
    with Some show ?thesis
      by (simp add: convertRect_fromView_def convertRect_fromView_with_def cache_only_refl
            valid_kept_refl)
  next
    case False
    have win: "window (views w v) = window (views w a)" using t Some by simp
    have dv: "dp v < n" and da: "dp a < n" using d by simp_all
    note ok = rebuild_total [of dp n]
    from matrixToWindow_with_ok [OF ok r c da]
    obtain w1 where m1: "matrixToWindow_with (rebuildCoordinates n) w a
                         = Return (w1, matrixToWindow_ivar (views w1 a))"
      and c1: "cache_only w w1" and k1: "valid_kept w w1" by blast
    have r1: "up_ranked dp w1" using c1 r by (rule cache_only_up_ranked)
    have cc1: "windows_consistent w1" using c1 c by (rule cache_only_windows_consistent)
    from matrixFromWindow_with_ok [OF ok r1 cc1 dv]
    obtain w2 where m2: "matrixFromWindow_with (rebuildCoordinates n) w1 v
                         = Return (w2, matrixFromWindow_ivar (views w2 v))"
      and c2: "cache_only w1 w2" and k2: "valid_kept w1 w2"
      and same2: "coordinates_valid (views w1 v) \<longrightarrow> w2 = w1" by blast
    have s2: "(if coordinates_valid (views w1 v)
                   then Return (w1, matrixFromWindow_ivar (views w1 v))
                   else matrixFromWindow_with (rebuildCoordinates n) w1 v)
              = Return (w2, matrixFromWindow_ivar (views w2 v))"
      using m2 same2 by auto
    have "convertRect_fromView n w v aRect aView0 =
          Return (w2, convert_rect_using_matrices aRect (matrixToWindow_ivar (views w1 a))
                        (matrixFromWindow_ivar (views w2 v)))"
      using Some False win m1 s2
      by (simp add: convertRect_fromView_def convertRect_fromView_with_def
            del: rebuildCoordinates.simps)
    moreover have "cache_only w w2" using c1 c2 by (rule cache_only_trans)
    moreover have "valid_kept w w2" using k1 k2 by (rule valid_kept_trans)
    ultimately show ?thesis by blast
  qed
qed

section \<open>States that differ only in what display changes\<close>

lemma strip_display_simps [simp]:
  "strip_display (set_needs_display b v) = strip_display v"
  "strip_display (v\<lparr>invalidRect := r\<rparr>) = strip_display v"
  "strip_display (v\<lparr>coordinates_valid := c\<rparr>) = strip_display v"
  by (simp_all add: strip_display_def strip_cache_def set_needs_display_def)

lemma strip_cache_display:
  assumes "strip_cache a = strip_cache b"
  shows "strip_display a = strip_display b"
  using assms strip_cache_fields(9) [OF assms] by (simp add: strip_display_def)

lemma strip_display_fields:
  assumes "strip_display a = strip_display b"
  shows "frame a = frame b" "bounds a = bounds b" "frameMatrix a = frameMatrix b"
    "boundsMatrix a = boundsMatrix b" "super_view a = super_view b" "sub_views a = sub_views b"
    "window a = window b" "isOpaque a = isOpaque b" "is_hidden a = is_hidden b"
    "has_subviews (rFlags a) = has_subviews (rFlags b)"
proof -
  have "frame (strip_display a) = frame (strip_display b)" using assms by simp
  then show "frame a = frame b" by (simp add: strip_display_def strip_cache_def)
  have "bounds (strip_display a) = bounds (strip_display b)" using assms by simp
  then show "bounds a = bounds b" by (simp add: strip_display_def strip_cache_def)
  have "frameMatrix (strip_display a) = frameMatrix (strip_display b)" using assms by simp
  then show "frameMatrix a = frameMatrix b" by (simp add: strip_display_def strip_cache_def)
  have "boundsMatrix (strip_display a) = boundsMatrix (strip_display b)" using assms by simp
  then show "boundsMatrix a = boundsMatrix b" by (simp add: strip_display_def strip_cache_def)
  have "super_view (strip_display a) = super_view (strip_display b)" using assms by simp
  then show "super_view a = super_view b" by (simp add: strip_display_def strip_cache_def)
  have "sub_views (strip_display a) = sub_views (strip_display b)" using assms by simp
  then show "sub_views a = sub_views b" by (simp add: strip_display_def strip_cache_def)
  have "window (strip_display a) = window (strip_display b)" using assms by simp
  then show "window a = window b" by (simp add: strip_display_def strip_cache_def)
  have "isOpaque (strip_display a) = isOpaque (strip_display b)" using assms by simp
  then show "isOpaque a = isOpaque b" by (simp add: strip_display_def strip_cache_def)
  have "is_hidden (strip_display a) = is_hidden (strip_display b)" using assms by simp
  then show "is_hidden a = is_hidden b" by (simp add: strip_display_def strip_cache_def)
  have "has_subviews (rFlags (strip_display a)) = has_subviews (rFlags (strip_display b))"
    using assms by simp
  then show "has_subviews (rFlags a) = has_subviews (rFlags b)"
    by (simp add: strip_display_def strip_cache_def)
qed

lemma display_only_refl: "display_only w w"
  by (simp add: display_only_def)

lemma display_only_trans: "display_only w w1 \<Longrightarrow> display_only w1 w2 \<Longrightarrow> display_only w w2"
  by (simp add: display_only_def)

lemma display_only_view: "display_only w w' \<Longrightarrow> strip_display (views w' u) = strip_display (views w u)"
  by (simp add: display_only_def)

lemma display_only_windows: "display_only w w' \<Longrightarrow> windows w' = windows w"
  by (simp add: display_only_def)

lemma cache_only_display:
  assumes "cache_only w w'"
  shows "display_only w w'"
  unfolding display_only_def
proof (intro conjI allI)
  show "windows w' = windows w" using assms by (simp add: cache_only_def)
  fix u
  from assms have "strip_cache (views w' u) = strip_cache (views w u)" by (rule cache_only_view)
  then show "strip_display (views w' u) = strip_display (views w u)" by (rule strip_cache_display)
qed

lemma display_only_emit: "display_only w (emit e w)"
  by (simp add: display_only_def)

lemma display_only_to_window: "display_only w (to_window w v msg)"
  by (simp add: display_only_def)

lemma display_only_upd:
  assumes "strip_display (f (views w v)) = strip_display (views w v)"
  shows "display_only w (upd_view v f w)"
  using assms by (simp add: display_only_def)

lemma display_only_super_view:
  "display_only w w' \<Longrightarrow> super_view (views w' u) = super_view (views w u)"
  by (rule strip_display_fields(5)) (rule display_only_view)

lemma display_only_sub_views:
  "display_only w w' \<Longrightarrow> sub_views (views w' u) = sub_views (views w u)"
  by (rule strip_display_fields(6)) (rule display_only_view)

lemma display_only_window:
  "display_only w w' \<Longrightarrow> window (views w' u) = window (views w u)"
  by (rule strip_display_fields(7)) (rule display_only_view)

lemma display_only_bounds:
  "display_only w w' \<Longrightarrow> bounds (views w' u) = bounds (views w u)"
  by (rule strip_display_fields(2)) (rule display_only_view)

lemma display_only_isOpaque:
  "display_only w w' \<Longrightarrow> isOpaque (views w' u) = isOpaque (views w u)"
  by (rule strip_display_fields(8)) (rule display_only_view)

lemma display_only_is_hidden:
  "display_only w w' \<Longrightarrow> is_hidden (views w' u) = is_hidden (views w u)"
  by (rule strip_display_fields(9)) (rule display_only_view)

lemma display_only_has_subviews:
  "display_only w w' \<Longrightarrow> has_subviews (rFlags (views w' u)) = has_subviews (rFlags (views w u))"
  by (rule strip_display_fields(10)) (rule display_only_view)

lemma display_only_well_formed:
  assumes "display_only w w'" and "well_formed dp rk w"
  shows "well_formed dp rk w'"
  using assms(2)
  by (simp add: well_formed_def up_ranked_def windows_consistent_def content_in_window_def
        ranked_def sub_linked_def display_only_super_view [OF assms(1)]
        display_only_sub_views [OF assms(1)] display_only_window [OF assms(1)]
        display_only_windows [OF assms(1)])

lemma display_only_descendant:
  assumes "display_only w w'"
  shows "descendant w' p d = descendant w p d"
proof
  assume "descendant w' p d"
  then show "descendant w p d"
  proof (induction rule: descendant.induct)
    case (child c)
    then show ?case by (simp add: display_only_sub_views [OF assms] descendant.child)
  next
    case (step c d)
    from step.hyps(2) have "d \<in> set (sub_views (views w c))"
      by (simp add: display_only_sub_views [OF assms])
    with step.IH show ?case by (rule descendant.step)
  qed
next
  assume "descendant w p d"
  then show "descendant w' p d"
  proof (induction rule: descendant.induct)
    case (child c)
    then have "c \<in> set (sub_views (views w' p))" by (simp add: display_only_sub_views [OF assms])
    then show ?case by (rule descendant.child)
  next
    case (step c d)
    from step.hyps(2) have "d \<in> set (sub_views (views w' c))"
      by (simp add: display_only_sub_views [OF assms])
    with step.IH show ?case by (rule descendant.step)
  qed
qed

lemma descendant_rank: "descendant w p d \<Longrightarrow> ranked rk w \<Longrightarrow> rk d < rk p"
proof (induction rule: descendant.induct)
  case (child c)
  then show ?case by (simp add: ranked_def)
next
  case (step c d)
  from step.hyps(2) step.prems have "rk d < rk c" by (simp add: ranked_def)
  with step.IH [OF step.prems] show ?case by simp
qed

lemma descendant_of_subview:
  "descendant w s u \<Longrightarrow> s \<in> set (sub_views (views w p)) \<Longrightarrow> descendant w p u"
proof (induction rule: descendant.induct)
  case (child c)
  from child.prems have "descendant w p s" by (rule descendant.child)
  then show ?case using child.hyps by (rule descendant.step)
next
  case (step c d)
  from step.IH [OF step.prems] step.hyps(2) show ?case by (rule descendant.step)
qed

lemma display_only_isHidden:
  assumes "display_only w w'"
  shows "isHiddenOrHasHiddenAncestor n w' v = isHiddenOrHasHiddenAncestor n w v"
proof (induction n arbitrary: v)
  case 0
  show ?case by simp
next
  case (Suc n)
  show ?case
    by (simp add: display_only_is_hidden [OF assms] display_only_super_view [OF assms] Suc
          split: option.splits)
qed
section \<open>Converting a point to another view and back\<close>

















section \<open>Marking the superviews\<close>

lemma ancestor_dp:
  assumes "up_ranked dp w" and "ancestor w v a"
  shows "dp a < dp v"
  using assms(2)
proof (induction rule: ancestor.induct)
  case (parent v p)
  with assms(1) show ?case by (simp add: up_ranked_def)
next
  case (grand v p a)
  from assms(1) grand(1) have "dp p < dp v" by (simp add: up_ranked_def)
  with grand(3) show ?case by simp
qed

lemma ancestor_window:
  assumes "windows_consistent w" and "ancestor w v a"
  shows "window (views w a) = window (views w v)"
  using assms(2)
proof (induction rule: ancestor.induct)
  case (parent v p)
  with assms(1) show ?case by (simp add: windows_consistent_def)
next
  case (grand v p a)
  from assms(1) grand(1) have "window (views w p) = window (views w v)"
    by (simp add: windows_consistent_def)
  with grand(3) show ?case by simp
qed

lemma ancestor_same_links:
  assumes "\<forall>u. super_view (views w' u) = super_view (views w u)" and "ancestor w v a"
  shows "ancestor w' v a"
  using assms(2)
proof (induction rule: ancestor.induct)
  case (parent v p)
  with assms(1) show ?case by (auto intro: ancestor.parent)
next
  case (grand v p a)
  with assms(1) show ?case by (auto intro: ancestor.grand)
qed

lemma ancestor_links_eq:
  assumes "\<forall>u. super_view (views w' u) = super_view (views w u)"
  shows "ancestor w' v a = ancestor w v a"
proof
  assume "ancestor w' v a"
  moreover have "\<forall>u. super_view (views w u) = super_view (views w' u)" using assms by simp
  ultimately show "ancestor w v a" by (rule ancestor_same_links [rotated])
next
  assume "ancestor w v a"
  with assms show "ancestor w' v a" by (rule ancestor_same_links)
qed

lemma opaqueAncestor_loop_total:
  "up_ranked dp w \<Longrightarrow> dp cur < n \<Longrightarrow>
   \<exists>fo. opaqueAncestor_loop n w (super_view (views w cur)) cur = Return fo
        \<and> (fo = cur \<or> ancestor w cur fo)"
proof (induction n arbitrary: cur)
  case 0
  then show ?case by simp
next
  case (Suc n)
  show ?case
  proof (cases "super_view (views w cur)")
    case None
    then show ?thesis by simp
  next
    case (Some nx)
    show ?thesis
    proof (cases "isOpaque (views w cur)")
      case True
      with Some show ?thesis by simp
    next
      case False
      have "dp nx < dp cur" using Suc.prems(1) Some by (simp add: up_ranked_def)
      with Suc.prems have "dp nx < n" by simp
      from Suc.IH [OF Suc.prems(1) this]
      obtain fo where f: "opaqueAncestor_loop n w (super_view (views w nx)) nx = Return fo"
        and a: "fo = nx \<or> ancestor w nx fo" by blast
      from a Some have "ancestor w cur fo"
        by (auto intro: ancestor.parent ancestor.grand)
      with Some False f show ?thesis by simp
    qed
  qed
qed

lemma opaqueAncestor_total:
  "up_ranked dp w \<Longrightarrow> dp v < n \<Longrightarrow>
   \<exists>fo. opaqueAncestor n w v = Return fo \<and> (fo = v \<or> ancestor w v fo)"
  by (simp add: opaqueAncestor_def opaqueAncestor_loop_total)

lemma set_needs_display_simps [simp]:
  "super_view (set_needs_display b x) = super_view x"
  "sub_views (set_needs_display b x) = sub_views x"
  "window (set_needs_display b x) = window x"
  "bounds (set_needs_display b x) = bounds x"
  "invalidRect (set_needs_display b x) = invalidRect x"
  "coordinates_valid (set_needs_display b x) = coordinates_valid x"
  "needs_display (rFlags (set_needs_display b x)) = b"
  "set_needs_display b (set_needs_display c x) = set_needs_display b x"
  by (simp_all add: set_needs_display_def)

lemma mark_superviews_total:
  "up_ranked dp w \<Longrightarrow> (\<forall>c. cur = Some c \<longrightarrow> dp c + 2 \<le> n) \<Longrightarrow> 0 < n \<Longrightarrow>
   \<exists>w'. mark_superviews n w cur = Return w' \<and> trace w' = trace w \<and> windows w' = windows w
        \<and> (\<forall>u. views w' u = (if marked w cur u then set_needs_display True (views w u)
                               else views w u))"
proof (induction n arbitrary: w cur)
  case 0
  then show ?case by simp
next
  case (Suc n)
  show ?case
  proof (cases cur)
    case None
    then show ?thesis by (simp add: marked_def)
  next
    case (Some c)
    define w1 where "w1 = upd_view c (set_needs_display True) w"
    have links: "\<forall>u. super_view (views w1 u) = super_view (views w u)"
      by (simp add: w1_def)
    have r1: "up_ranked dp w1" using Suc.prems(1) links by (simp add: up_ranked_def)
    have dc: "dp c + 2 \<le> Suc n" using Suc.prems(2) Some by simp
    have f: "\<forall>c'. super_view (views w c) = Some c' \<longrightarrow> dp c' + 2 \<le> n"
    proof (intro allI impI)
      fix c' assume "super_view (views w c) = Some c'"
      then have "dp c' < dp c" using Suc.prems(1) by (simp add: up_ranked_def)
      with dc show "dp c' + 2 \<le> n" by simp
    qed
    have n0: "0 < n" using dc by simp
    from Suc.IH [OF r1 f n0]
    obtain w' where m: "mark_superviews n w1 (super_view (views w c)) = Return w'"
      and t: "trace w' = trace w1" and ws: "windows w' = windows w1"
      and v: "\<forall>u. views w' u = (if marked w1 (super_view (views w c)) u
                                then set_needs_display True (views w1 u) else views w1 u)"
      by blast
    have mk: "marked w1 (super_view (views w c)) u = marked w (super_view (views w c)) u" for u
      by (simp add: marked_def ancestor_links_eq [OF links] split: option.split)
    have mc: "marked w (Some c) u = (u = c \<or> marked w (super_view (views w c)) u)" for u
    proof (cases "super_view (views w c)")
      case None
      then show ?thesis
        by (auto simp: marked_def elim: ancestor.cases)
    next
      case (Some p)
      then show ?thesis
        by (auto simp: marked_def elim: ancestor.cases intro: ancestor.parent ancestor.grand)
    qed
    have "views w' u = (if marked w cur u then set_needs_display True (views w u) else views w u)" for u
    proof -
      have "views w' u = (if marked w (super_view (views w c)) u
                          then set_needs_display True (views w1 u) else views w1 u)"
        using v by (simp add: mk)
      then show ?thesis by (simp add: Some mc w1_def)
    qed
    moreover have "mark_superviews (Suc n) w cur = Return w'"
      using m by (simp add: Some w1_def)
    moreover have "trace w' = trace w" "windows w' = windows w"
      using t ws by (simp_all add: w1_def)
    ultimately show ?thesis by blast
  qed
qed

section \<open>Marking a rectangle that is already invalid\<close>














lemma intersection_cases:
  "NSIntersectionRect a b = NSZeroRect \<or> rect_contains b (NSIntersectionRect a b)"
  by (simp add: NSIntersectionRect_def NSZeroRect_def rect_contains_def Let_def NSMakeRect_def
        NSMinX_def NSMinY_def NSMaxX_def NSMaxY_def)

lemma union_in_bounds:
  assumes "old = NSZeroRect \<or> (\<not> NSIsEmptyRect old \<and> rect_contains b old)"
    and "part = NSZeroRect \<or> rect_contains b part"
  shows "NSUnionRect old part = NSZeroRect
         \<or> (\<not> NSIsEmptyRect (NSUnionRect old part) \<and> rect_contains b (NSUnionRect old part))"
proof (cases "NSIsEmptyRect old")
  case eo: True
  show ?thesis
  proof (cases "NSIsEmptyRect part")
    case True
    with eo show ?thesis by (simp add: NSUnionRect_def NSZeroRect_def)
  next
    case False
    with assms(2) have "rect_contains b part" by (auto simp: zero_rect_empty)
    with eo False show ?thesis by (simp add: NSUnionRect_def)
  qed
next
  case no: False
  with assms(1) have co: "rect_contains b old" by (auto simp: zero_rect_empty)
  show ?thesis
  proof (cases "NSIsEmptyRect part")
    case True
    with no co show ?thesis by (simp add: NSUnionRect_def)
  next
    case False
    with assms(2) have cp: "rect_contains b part" by (auto simp: zero_rect_empty)
    have u: "NSUnionRect old part =
        NSMakeRect (min (NSMinX old) (NSMinX part)) (min (NSMinY old) (NSMinY part))
          (max (NSMaxX old) (NSMaxX part) - min (NSMinX old) (NSMinX part))
          (max (NSMaxY old) (NSMaxY part) - min (NSMinY old) (NSMinY part))"
      using no False by (simp add: NSUnionRect_def Let_def)
    have "\<not> NSIsEmptyRect (NSUnionRect old part)"
      using no unfolding u
      by (simp add: NSIsEmptyRect_def NSMakeRect_def NSWidth_def NSHeight_def NSMinX_def
            NSMinY_def NSMaxX_def NSMaxY_def) linarith
    moreover have "rect_contains b (NSUnionRect old part)"
      using co cp unfolding u
      by (simp add: rect_contains_def NSMakeRect_def NSMinX_def NSMinY_def NSMaxX_def NSMaxY_def)
    ultimately show ?thesis by simp
  qed
qed

lemma mark_invalid_in_bounds:
  assumes "invalid_in_bounds v"
  shows "invalid_in_bounds
           ((set_needs_display True v)
              \<lparr>invalidRect := NSUnionRect (invalidRect v) (NSIntersectionRect rect (bounds v))\<rparr>)"
  using union_in_bounds [of "invalidRect v" "bounds v" "NSIntersectionRect rect (bounds v)"]
    assms intersection_cases [of rect "bounds v"]
  by (simp add: invalid_in_bounds_def)


lemma geometry_kept_refl: "geometry_kept w w"
  by (simp add: geometry_kept_def display_only_def)

lemma geometry_kept_trans: "geometry_kept w w1 \<Longrightarrow> geometry_kept w1 w2 \<Longrightarrow> geometry_kept w w2"
  by (simp add: geometry_kept_def display_only_def)

lemma geometry_kept_up_ranked: "geometry_kept w w' \<Longrightarrow> up_ranked dp w \<Longrightarrow> up_ranked dp w'"
  by (simp add: geometry_kept_def up_ranked_def)

lemma geometry_kept_consistent:
  "geometry_kept w w' \<Longrightarrow> windows_consistent w \<Longrightarrow> windows_consistent w'"
  by (simp add: geometry_kept_def windows_consistent_def)

lemma geometry_kept_ancestor: "geometry_kept w w' \<Longrightarrow> ancestor w' v a = ancestor w v a"
  by (rule ancestor_links_eq) (simp add: geometry_kept_def)

lemma cache_only_geometry: "cache_only w w' \<Longrightarrow> geometry_kept w w'"
  unfolding geometry_kept_def
proof (intro conjI allI)
  assume "cache_only w w'"
  then show "display_only w w'" by (rule cache_only_display)
next
  fix u assume "cache_only w w'"
  then have s: "strip_cache (views w' u) = strip_cache (views w u)" by (rule cache_only_view)
  show "super_view (views w' u) = super_view (views w u)" by (rule strip_cache_fields(5) [OF s])
  show "window (views w' u) = window (views w u)" by (rule strip_cache_fields(7) [OF s])
  show "bounds (views w' u) = bounds (views w u)" by (rule strip_cache_fields(2) [OF s])
qed

lemma cache_only_invalidRect: "cache_only w w' \<Longrightarrow> invalidRect (views w' u) = invalidRect (views w u)"
  by (rule strip_cache_fields(10)) (rule cache_only_view)

lemma invalid_in_bounds_cong:
  "invalidRect a = invalidRect b \<Longrightarrow> bounds a = bounds b \<Longrightarrow> invalid_in_bounds a = invalid_in_bounds b"
  by (simp add: invalid_in_bounds_def)

lemma mark_superviews_post:
  assumes r: "up_ranked dp w" and f: "\<forall>c. cur = Some c \<longrightarrow> dp c + 2 \<le> n" and n: "0 < n"
  shows "\<exists>w'. mark_superviews n w cur = Return w' \<and> geometry_kept w w'
           \<and> (\<forall>u. invalidRect (views w' u) = invalidRect (views w u))"
proof -
  from mark_superviews_total [OF r f n]
  obtain w' where m: "mark_superviews n w cur = Return w'" and ws: "windows w' = windows w"
    and v: "\<forall>u. views w' u = (if marked w cur u then set_needs_display True (views w u)
                               else views w u)" by blast
  have "geometry_kept w w'"
    by (simp add: geometry_kept_def display_only_def v ws)
  moreover have "\<forall>u. invalidRect (views w' u) = invalidRect (views w u)" by (simp add: v)
  ultimately show ?thesis using m by blast
qed

lemma ancestor_trans: "ancestor w v a \<Longrightarrow> ancestor w a u \<Longrightarrow> ancestor w v u"
proof (induction rule: ancestor.induct)
  case (parent v p)
  then show ?case by (auto intro: ancestor.grand)
next
  case (grand v p a')
  then show ?case by (auto intro: ancestor.grand)
qed

lemma mark_postI:
  assumes "k \<longrightarrow> (\<forall>u. invalid_in_bounds (views w' u))" and "geometry_kept w w'"
    and "invalidRect (views w' self)
         = NSUnionRect_fl fl (invalidRect (views w self))
             (NSIntersectionRect_fl fl rect (bounds (views w self)))"
    and "\<forall>u. u \<noteq> self \<longrightarrow> \<not> ancestor w self u \<longrightarrow>
            invalidRect (views w' u) = invalidRect (views w u)"
  shows "mark_post k fl w self rect w'"
  unfolding mark_post_def using assms by blast

lemma mark_postD:
  assumes "mark_post k fl w self rect w'"
  shows "k \<longrightarrow> (\<forall>u. invalid_in_bounds (views w' u))" and "geometry_kept w w'"
    and "invalidRect (views w' self)
         = NSUnionRect_fl fl (invalidRect (views w self))
             (NSIntersectionRect_fl fl rect (bounds (views w self)))"
    and "\<forall>u. u \<noteq> self \<longrightarrow> \<not> ancestor w self u \<longrightarrow>
            invalidRect (views w' u) = invalidRect (views w u)"
  using assms unfolding mark_post_def by blast+

lemma setNeedsDisplayInRect_total:
  "up_ranked dp w \<Longrightarrow> windows_consistent w \<Longrightarrow> \<forall>u. dp u \<le> D \<Longrightarrow> D + 3 + dp self \<le> n \<Longrightarrow>
   k \<longrightarrow> fl = exact \<and> (\<forall>u. invalid_in_bounds (views w u)) \<Longrightarrow>
   \<exists>w'. setNeedsDisplayInRect fl n w self rect = Return w' \<and> mark_post k fl w self rect w'"
proof (induction n arbitrary: w self rect)
  case 0
  then show ?case by simp
next
  case (Suc n)
  note r = Suc.prems(1) and c = Suc.prems(2) and b = Suc.prems(3) and f = Suc.prems(4)
    and i = Suc.prems(5)
  let ?old = "invalidRect (views w self)"
  let ?inv2 = "NSUnionRect_fl fl ?old (NSIntersectionRect_fl fl rect (bounds (views w self)))"
  have dn: "\<forall>u. dp u < n"
  proof
    fix u from b have "dp u \<le> D" by simp
    with f show "dp u < n" by simp
  qed
  have step1: "\<exists>w3. (if \<not> NSEqualRects ?inv2 ?old then
             rbind (opaqueAncestor n w self) (\<lambda>firstOpaque.
               let w1 = upd_view self (\<lambda>v. (set_needs_display True v)\<lparr>invalidRect := ?inv2\<rparr>) w
               in if firstOpaque = self
                  then Return (to_window w1 self (\<lambda>win. SetViewsNeedDisplay win True))
                  else rbind (convertRect_fromView n w1 firstOpaque (invalidRect (views w1 self))
                                (Some self)) (\<lambda>(w2, r).
                       setNeedsDisplayInRect fl n w2 firstOpaque r))
           else Return w) = Return w3 \<and> mark_post k fl w self rect w3"
  proof (cases "NSEqualRects ?inv2 ?old")
    case True
    then have "?inv2 = ?old" by (rule equal_rects_eq)
    then have "mark_post k fl w self rect w"
      using i by (simp add: mark_post_def geometry_kept_refl)
    with True show ?thesis by simp
  next
    case False
    from opaqueAncestor_total [OF r, of self n] dn
    obtain fo where fo: "opaqueAncestor n w self = Return fo"
      and fa: "fo = self \<or> ancestor w self fo" by auto
    define w1 where "w1 = upd_view self (\<lambda>v. (set_needs_display True v)\<lparr>invalidRect := ?inv2\<rparr>) w"
    have g1: "geometry_kept w w1" by (simp add: geometry_kept_def display_only_def w1_def)
    have i1: "k \<longrightarrow> (\<forall>u. invalid_in_bounds (views w1 u))"
    proof
      assume k
      with i have x: "fl = exact" and iw: "\<forall>u. invalid_in_bounds (views w u)" by simp_all
      from iw mark_invalid_in_bounds [of "views w self" rect]
      show "\<forall>u. invalid_in_bounds (views w1 u)"
        by (simp add: w1_def x NSIntersectionRect_fl_exact NSUnionRect_fl_exact)
    qed
    have s1: "invalidRect (views w1 self) = ?inv2" by (simp add: w1_def)
    have o1: "\<forall>u. u \<noteq> self \<longrightarrow> invalidRect (views w1 u) = invalidRect (views w u)"
      by (simp add: w1_def)
    have p1: "mark_post k fl w self rect w1"
      using i1 g1 s1 o1 by (simp add: mark_post_def)
    show ?thesis
    proof (cases "fo = self")
      case True
      define w2 where "w2 = to_window w1 self (\<lambda>win. SetViewsNeedDisplay win True)"
      have "views w2 = views w1" by (simp add: w2_def)
      moreover have "windows w2 = windows w1" by (simp add: w2_def)
      ultimately have "mark_post k fl w self rect w2"
        using p1 by (simp add: mark_post_def geometry_kept_def display_only_def)
      with False fo True show ?thesis
        by (simp add: w1_def [symmetric] w2_def [symmetric] Let_def)
    next
      case ne: False
      with fa have anc: "ancestor w self fo" by simp
      have dfo: "dp fo < dp self" using r anc by (rule ancestor_dp)
      have wfo: "window (views w fo) = window (views w self)" using c anc by (rule ancestor_window)
      have r1: "up_ranked dp w1" using g1 r by (rule geometry_kept_up_ranked)
      have c1: "windows_consistent w1" using g1 c by (rule geometry_kept_consistent)
      have t1: "\<forall>a. (case Some self of None \<Rightarrow> window_base_view w1 fo | Some a \<Rightarrow> Some a) = Some a
                 \<longrightarrow> window (views w1 a) = window (views w1 fo)"
        using wfo g1 by (simp add: geometry_kept_def)
      from convertRect_fromView_total [OF r1 c1 dn t1, of "invalidRect (views w1 self)"]
      obtain w2 r' where cv: "convertRect_fromView n w1 fo (invalidRect (views w1 self)) (Some self)
                              = Return (w2, r')"
        and c12: "cache_only w1 w2" by blast
      have g12: "geometry_kept w1 w2" using c12 by (rule cache_only_geometry)
      have r2: "up_ranked dp w2" using g12 r1 by (rule geometry_kept_up_ranked)
      have c2: "windows_consistent w2" using g12 c1 by (rule geometry_kept_consistent)
      have e12: "invalid_in_bounds (views w2 u) = invalid_in_bounds (views w1 u)" for u
        using g12 by (intro invalid_in_bounds_cong cache_only_invalidRect [OF c12])
          (simp add: geometry_kept_def)
      have i2: "k \<longrightarrow> fl = exact \<and> (\<forall>u. invalid_in_bounds (views w2 u))"
        using i i1 by (simp add: e12)
      have f2: "D + 3 + dp fo \<le> n" using f dfo by simp
      from Suc.IH [OF r2 c2 b f2 i2, of r']
      obtain w3 where m3: "setNeedsDisplayInRect fl n w2 fo r' = Return w3"
        and p3: "mark_post k fl w2 fo r' w3" by blast
      have g23: "geometry_kept w2 w3" using p3 by (simp add: mark_post_def)
      have g02: "geometry_kept w w2" using g1 g12 by (rule geometry_kept_trans)
      have g03: "geometry_kept w w3" using g02 g23 by (rule geometry_kept_trans)
      have nself: "\<not> ancestor w fo self"
      proof
        assume "ancestor w fo self"
        with r have "dp self < dp fo" by (rule ancestor_dp)
        with dfo show False by simp
      qed
      have keep: "invalidRect (views w3 u) = invalidRect (views w2 u)"
        if "u \<noteq> fo" and "\<not> ancestor w fo u" for u
        using p3 that by (simp add: mark_post_def geometry_kept_ancestor [OF g02])
      have s3: "invalidRect (views w3 self) = ?inv2"
        using keep [of self] ne nself s1 by (simp add: cache_only_invalidRect [OF c12])
      have o3: "\<forall>u. u \<noteq> self \<longrightarrow> \<not> ancestor w self u \<longrightarrow>
            invalidRect (views w3 u) = invalidRect (views w u)"
      proof (intro allI impI)
        fix u assume us: "u \<noteq> self" and na: "\<not> ancestor w self u"
        have "u \<noteq> fo" using na anc by auto
        moreover have "\<not> ancestor w fo u"
        proof
          assume a: "ancestor w fo u"
          with anc have "ancestor w self u" by (rule ancestor_trans)
          with na show False by blast
        qed
        ultimately have "invalidRect (views w3 u) = invalidRect (views w2 u)" by (rule keep)
        then show "invalidRect (views w3 u) = invalidRect (views w u)"
          using o1 us by (simp add: cache_only_invalidRect [OF c12])
      qed
      have i3: "k \<longrightarrow> (\<forall>u. invalid_in_bounds (views w3 u))"
        using p3 by (simp add: mark_post_def)
      have "mark_post k fl w self rect w3"
        using i3 g03 s3 o3 by (simp add: mark_post_def)
      with False fo ne cv m3 show ?thesis
        by (simp add: w1_def [symmetric] Let_def)
    qed
  qed
  then obtain w3 where e3: "(if \<not> NSEqualRects ?inv2 ?old then
             rbind (opaqueAncestor n w self) (\<lambda>firstOpaque.
               let w1 = upd_view self (\<lambda>v. (set_needs_display True v)\<lparr>invalidRect := ?inv2\<rparr>) w
               in if firstOpaque = self
                  then Return (to_window w1 self (\<lambda>win. SetViewsNeedDisplay win True))
                  else rbind (convertRect_fromView n w1 firstOpaque (invalidRect (views w1 self))
                                (Some self)) (\<lambda>(w2, r).
                       setNeedsDisplayInRect fl n w2 firstOpaque r))
           else Return w) = Return w3" and p3: "mark_post k fl w self rect w3" by blast
  have g3: "geometry_kept w w3" using p3 by (rule mark_postD(2))
  have r3: "up_ranked dp w3" using g3 r by (rule geometry_kept_up_ranked)
  have f3: "\<forall>c. super_view (views w self) = Some c \<longrightarrow> dp c + 2 \<le> n"
  proof (intro allI impI)
    fix c assume "super_view (views w self) = Some c"
    from dn have "dp c < n" by simp
    from b have "dp c \<le> D" by simp
    with f show "dp c + 2 \<le> n" by simp
  qed
  have n0: "0 < n" using f by simp
  from mark_superviews_post [OF r3 f3 n0]
  obtain w4 where m4: "mark_superviews n w3 (super_view (views w self)) = Return w4"
    and g4: "geometry_kept w3 w4"
    and k4: "\<forall>u. invalidRect (views w4 u) = invalidRect (views w3 u)" by blast
  have b4: "bounds (views w4 u) = bounds (views w3 u)" for u
    using g4 by (simp add: geometry_kept_def)
  have e4: "invalid_in_bounds (views w4 u) = invalid_in_bounds (views w3 u)" for u
    by (rule invalid_in_bounds_cong) (simp_all add: k4 b4)
  have i4: "k \<longrightarrow> (\<forall>u. invalid_in_bounds (views w4 u))"
    using mark_postD(1) [OF p3] by (simp add: e4)
  have g04: "geometry_kept w w4" using g3 g4 by (rule geometry_kept_trans)
  have s4: "invalidRect (views w4 self) = ?inv2"
    using mark_postD(3) [OF p3] by (simp add: k4)
  have o4: "\<forall>u. u \<noteq> self \<longrightarrow> \<not> ancestor w self u \<longrightarrow>
            invalidRect (views w4 u) = invalidRect (views w u)"
    using mark_postD(4) [OF p3] by (simp add: k4)
  from i4 g04 s4 o4 have "mark_post k fl w self rect w4" by (rule mark_postI)
  moreover have "setNeedsDisplayInRect fl (Suc n) w self rect = Return w4"
    apply (subst setNeedsDisplayInRect.simps)
    apply (unfold Let_def)
    apply (subst e3 [unfolded Let_def])
    apply (simp add: m4)
    done
  ultimately show ?case by blast
qed
section \<open>Adding a view that would close a loop\<close>

lemma isDescendantOf_self: "isDescendantOf (Suc n) w self (Some self) = Return True"
  by simp

lemma isDescendantOf_ancestor:
  "ancestor w y x \<Longrightarrow> up_ranked dp w \<Longrightarrow> dp y < n \<Longrightarrow> isDescendantOf n w y (Some x) = Return True"
proof (induction n arbitrary: y)
  case 0
  then show ?case by simp
next
  case (Suc n)
  from Suc.prems(1) show ?case
  proof (cases rule: ancestor.cases)
    case (parent)
    then show ?thesis by simp
  next
    case (grand p)
    show ?thesis
    proof (cases "x = p \<or> x = y")
      case True
      with grand show ?thesis by auto
    next
      case False
      from grand(1) Suc.prems(2) have "dp p < dp y" by (simp add: up_ranked_def)
      with Suc.prems(3) have "dp p < n" by simp
      with Suc.IH [OF grand(2) Suc.prems(2)] have "isDescendantOf n w p (Some x) = Return True" .
      with grand(1) False show ?thesis by simp
    qed
  qed
qed

text \<open>
  C2.  \<^verbatim>\<open>addSubview:\<close> with a \<^verbatim>\<open>nil\<close> argument raises \<^verbatim>\<open>NSInvalidArgumentException\<close>; so does
  \<^verbatim>\<open>addSubview:\<close> sent to a view \<open>y\<close> with an argument \<open>x\<close> that is \<open>y\<close> itself or is above
  \<open>y\<close> in the tree (reached from \<open>y\<close> through superview links), given enough depth for the
  walk up the superviews.  In both cases the exception is raised in the state the method
  was called in: no view, window or message has changed, in particular no superview
  reference, subview list or window reference.
\<close>

theorem addSubview_rejects_nil_and_loop:
  "addSubview fl n w y None = Raise NSInvalidArgumentException w
   \<and> ((x = y \<or> ancestor w y x) \<longrightarrow> up_ranked dp w \<longrightarrow> dp y < n \<longrightarrow>
        addSubview fl n w y (Some x) = Raise NSInvalidArgumentException w)"
proof (intro conjI impI)
  show "addSubview fl n w y None = Raise NSInvalidArgumentException w"
    by (simp add: addSubview_def)
next
  assume a: "x = y \<or> ancestor w y x" and r: "up_ranked dp w" and d: "dp y < n"
  have "isDescendantOf n w y (Some x) = Return True"
  proof (cases "x = y")
    case True
    from d obtain m where "n = Suc m" by (cases n) auto
    with True show ?thesis by simp
  next
    case False
    with a have "ancestor w y x" by simp
    then show ?thesis using r d by (rule isDescendantOf_ancestor)
  qed
  then show "addSubview fl n w y (Some x) = Raise NSInvalidArgumentException w"
    by (simp add: addSubview_def)
qed

lemma parent_and_child_ancestor: "ancestor detached_parent_and_child 1 0"
  by (rule ancestor.parent) (simp add: detached_fields)

lemma detached_up_ranked: "up_ranked depth_parent_and_child detached_parent_and_child"
  by (simp add: up_ranked_def detached_fields depth_parent_and_child_def)

theorem addSubview_rejects_nil_and_loop_witness:
  "ancestor detached_parent_and_child 1 0
   \<and> up_ranked depth_parent_and_child detached_parent_and_child
   \<and> depth_parent_and_child 1 < 2
   \<and> addSubview exact 2 detached_parent_and_child 1 (Some 0)
       = Raise NSInvalidArgumentException detached_parent_and_child
   \<and> addSubview exact 2 detached_parent_and_child 1 (Some 1)
       = Raise NSInvalidArgumentException detached_parent_and_child
   \<and> addSubview exact 2 detached_parent_and_child 1 None
       = Raise NSInvalidArgumentException detached_parent_and_child"
proof -
  have d: "depth_parent_and_child 1 < 2" by (simp add: depth_parent_and_child_def)
  from addSubview_rejects_nil_and_loop [of exact 2 detached_parent_and_child 1 0 depth_parent_and_child]
    addSubview_rejects_nil_and_loop [of exact 2 detached_parent_and_child 1 1 depth_parent_and_child]
    parent_and_child_ancestor detached_up_ranked d
  show ?thesis by simp
qed
section \<open>Walking the key view chain\<close>

lemma isHidden_total:
  "up_ranked dp w \<Longrightarrow> dp v < n \<Longrightarrow>
   isHiddenOrHasHiddenAncestor n w v = Return (hidden_or_hidden_ancestor w v)"
proof (induction n arbitrary: v)
  case 0
  then show ?case by simp
next
  case (Suc n)
  show ?case
  proof (cases "is_hidden (views w v)")
    case True
    then show ?thesis by (simp add: hidden_or_hidden_ancestor.self_hidden)
  next
    case nh: False
    show ?thesis
    proof (cases "super_view (views w v)")
      case None
      with nh have "\<not> hidden_or_hidden_ancestor w v"
        by (auto elim: hidden_or_hidden_ancestor.cases)
      with nh None show ?thesis by simp
    next
      case (Some p)
      with Suc.prems have "dp p < n" by (fastforce simp: up_ranked_def)
      with Suc have ih: "isHiddenOrHasHiddenAncestor n w p = Return (hidden_or_hidden_ancestor w p)"
        by simp
      have "hidden_or_hidden_ancestor w v = hidden_or_hidden_ancestor w p"
        using nh Some
        by (auto elim: hidden_or_hidden_ancestor.cases intro: hidden_or_hidden_ancestor.ancestor_hidden)
      with nh Some ih show ?thesis by simp
    qed
  qed
qed

lemma canBecomeKeyView_total:
  "up_ranked dp w \<Longrightarrow> dp v < n \<Longrightarrow> canBecomeKeyView n w v = Return (eligible w v)"
  by (simp add: canBecomeKeyView_def eligible_def isHidden_total)

lemma validKeyView_loop_returns:
  assumes "up_ranked dp w" and "\<forall>v. dp v \<le> D"
  shows "loop_stops w self (nth_link link w k t) \<Longrightarrow>
         \<forall>j<k. \<not> loop_stops w self (nth_link link w j t) \<Longrightarrow>
         k + D + 2 \<le> n \<Longrightarrow>
         validKeyView_loop link n w self t = Return (nth_link link w k t)"
proof (induction k arbitrary: t n)
  case 0
  then obtain m where n: "n = Suc m" and m: "D < m" by (cases n) auto
  show ?case
  proof (cases t)
    case None
    then show ?thesis by (simp add: n)
  next
    case (Some x)
    have "dp x < m" using assms(2) m by (meson le_less_trans)
    then have c: "canBecomeKeyView m w x = Return (eligible w x)"
      using assms(1) by (simp add: canBecomeKeyView_total)
    from 0(1) Some have "x = self \<or> eligible w x" by (simp add: loop_stops_def)
    with Some c show ?thesis by (auto simp: n)
  qed
next
  case (Suc k)
  then obtain m where n: "n = Suc m" and m: "k + D + 2 \<le> m" by (cases n) auto
  from Suc.prems(2) have ns: "\<not> loop_stops w self t" by fastforce
  then obtain x where t: "t = Some x" and x: "x \<noteq> self" "\<not> eligible w x"
    by (cases t) (auto simp: loop_stops_def)
  have "dp x < m" using assms(2) m by (meson add_leD1 le_less_trans less_add_same_cancel1
        add_lessD1 le_add2 less_le_trans zero_less_numeral not_less)
  then have c: "canBecomeKeyView m w x = Return (eligible w x)"
    using assms(1) by (simp add: canBecomeKeyView_total)
  have s: "loop_stops w self (nth_link link w k (link w x))"
    using Suc.prems(1) t by simp
  have ns': "\<forall>j<k. \<not> loop_stops w self (nth_link link w j (link w x))"
  proof (intro allI impI)
    fix j assume "j < k"
    then have "Suc j < Suc k" by simp
    with Suc.prems(2) have "\<not> loop_stops w self (nth_link link w (Suc j) t)" by blast
    with t show "\<not> loop_stops w self (nth_link link w j (link w x))" by simp
  qed
  from Suc.IH [OF s ns' m]
  have "validKeyView_loop link m w self (link w x) = Return (nth_link link w k (link w x))" .
  with t x c show ?case by (simp add: n)
qed

lemma three_views_fields:
  "nextKeyView_ivar (views three_views v) = None"
  "previousKeyView_ivar (views three_views v) = None"
  "acceptsFirstResponder (views three_views v) = False"
  "super_view (views three_views v) = None"
  by (simp_all add: three_views_def initWithFrame_def Let_def empty_world_def blank_view_def)

lemma views_set_nKV [simp]:
  "views (set_nKV v arr w) u = (if u = v then (views w v)\<lparr>nextKeyView_ivar := Some arr\<rparr> else views w u)"
  by (simp add: set_nKV_def)

lemma views_set_pKV [simp]:
  "views (set_pKV v arr w) u = (if u = v then (views w v)\<lparr>previousKeyView_ivar := Some arr\<rparr> else views w u)"
  by (simp add: set_pKV_def)

definition links01 :: world where "links01 = setNextKeyView three_views 0 (Some 1)"
definition links012 :: world where "links012 = setNextKeyView links01 1 (Some 2)"

lemma links01_fields:
  "nextKeyView_ivar (views links01 v) = (if v = 0 then Some [Some 1] else None)"
  "previousKeyView_ivar (views links01 v) = (if v = 1 then Some [Some 0] else None)"
  "acceptsFirstResponder (views links01 v) = False"
  "super_view (views links01 v) = None"
  by (simp_all add: links01_def setNextKeyView_def three_views_fields Let_def item0_def
        nKV_def pKV_def set_item0_def)

lemma links012_fields:
  "nextKeyView_ivar (views links012 v) = (if v = 0 then Some [Some 1] else if v = 1 then Some [Some 2] else None)"
  "previousKeyView_ivar (views links012 v) = (if v = 1 then Some [Some 0] else if v = 2 then Some [Some 1] else None)"
  "acceptsFirstResponder (views links012 v) = False"
  "super_view (views links012 v) = None"
  by (simp_all add: links012_def setNextKeyView_def links01_fields Let_def item0_def
        nKV_def pKV_def set_item0_def)

lemma key_loop_eq: "key_loop = setNextKeyView links012 2 (Some 0)"
  by (simp add: key_loop_def links012_def links01_def)

lemma key_lasso_eq: "key_lasso = setNextKeyView links012 2 (Some 1)"
  by (simp add: key_lasso_def links012_def links01_def)

lemma key_loop_fields:
  "nextKeyView key_loop v = (if v = 0 then Some 1 else if v = 1 then Some 2 else if v = 2 then Some 0 else None)"
  "acceptsFirstResponder (views key_loop v) = False"
  "super_view (views key_loop v) = None"
  by (simp_all add: key_loop_eq setNextKeyView_def links012_fields Let_def item0_def
        nKV_def pKV_def set_item0_def nextKeyView_def remove_after0_def)

lemma key_lasso_fields:
  "nextKeyView key_lasso v = (if v = 0 then Some 1 else if v = 1 then Some 2 else if v = 2 then Some 1 else None)"
  "previousKeyView_ivar (views key_lasso v) =
     (if v = 1 then Some [Some 2, Some 0] else if v = 2 then Some [Some 1] else None)"
  "acceptsFirstResponder (views key_lasso v) = False"
  "super_view (views key_lasso v) = None"
  by (simp_all add: key_lasso_eq setNextKeyView_def links012_fields Let_def item0_def
        nKV_def pKV_def set_item0_def nextKeyView_def remove_after0_def)

text \<open>
  C7, as the code has it.  When the chain of links from the view reaches, after \<open>k\<close> links,
  a chain end, the view itself or a view that can become key view, and no earlier view
  on the chain is one of these, \<open>nextValidKeyView\<close> (along \<open>nextKeyView\<close>) and
  \<open>previousValidKeyView\<close> (along \<open>previousKeyView\<close>) return, given enough depth for the
  calls, and they return that element of the chain: \<open>None\<close> at a chain end, the view
  itself when the walk comes back to it, otherwise the first view that can become key
  view.  Superview chains are finite (of length at most \<open>D\<close>).
\<close>

theorem validKeyView_returns_first_stop:
  assumes "up_ranked dp w" and "\<forall>v. dp v \<le> D"
    and "(link, valid) = (nextKeyView, nextValidKeyView)
         \<or> (link, valid) = (previousKeyView, previousValidKeyView)"
    and "loop_stops w self (nth_link link w k (link w self))"
    and "\<forall>j<k. \<not> loop_stops w self (nth_link link w j (link w self))"
    and "k + D + 2 \<le> n"
  shows "valid n w self = Return (nth_link link w k (link w self))
       \<and> (nth_link link w k (link w self) = None
          \<or> nth_link link w k (link w self) = Some self
          \<or> (\<exists>t. nth_link link w k (link w self) = Some t \<and> t \<noteq> self \<and> eligible w t))"
proof -
  have v: "valid n w self = validKeyView_loop link n w self (link w self)"
    using assms(3) by (auto simp: nextValidKeyView_def previousValidKeyView_def)
  have "validKeyView_loop link n w self (link w self) = Return (nth_link link w k (link w self))"
    using assms(1,2) assms(4,5,6) by (rule validKeyView_loop_returns)
  moreover have "nth_link link w k (link w self) = None
          \<or> nth_link link w k (link w self) = Some self
          \<or> (\<exists>t. nth_link link w k (link w self) = Some t \<and> t \<noteq> self \<and> eligible w t)"
    using assms(4) by (cases "nth_link link w k (link w self)") (auto simp: loop_stops_def)
  ultimately show ?thesis using v by simp
qed

lemma key_loop_not_hidden: "\<not> eligible key_loop v"
  by (simp add: eligible_def key_loop_fields)

lemma key_loop_up_ranked: "up_ranked (\<lambda>_. 0) key_loop"
  by (simp add: up_ranked_def key_loop_fields)

theorem validKeyView_returns_first_stop_witness:
  "up_ranked (\<lambda>_. 0) key_loop
   \<and> loop_stops key_loop 0 (nth_link nextKeyView key_loop 2 (nextKeyView key_loop 0))
   \<and> \<not> loop_stops key_loop 0 (nth_link nextKeyView key_loop 0 (nextKeyView key_loop 0))
   \<and> \<not> loop_stops key_loop 0 (nth_link nextKeyView key_loop 1 (nextKeyView key_loop 0))
   \<and> nextValidKeyView 4 key_loop 0 = Return (Some 0)"
proof -
  have c0: "nth_link nextKeyView key_loop 0 (nextKeyView key_loop 0) = Some 1"
    by (simp add: key_loop_fields)
  have c1: "nth_link nextKeyView key_loop 1 (nextKeyView key_loop 0) = Some 2"
    by (simp add: key_loop_fields)
  have c2: "nth_link nextKeyView key_loop 2 (nextKeyView key_loop 0) = Some 0"
    by (simp add: key_loop_fields numeral_2_eq_2)
  have s2: "loop_stops key_loop 0 (nth_link nextKeyView key_loop 2 (nextKeyView key_loop 0))"
    by (simp add: c2 loop_stops_def)
  have n0: "\<not> loop_stops key_loop 0 (nth_link nextKeyView key_loop 0 (nextKeyView key_loop 0))"
    by (simp only: c0) (simp add: loop_stops_def key_loop_not_hidden)
  have n1: "\<not> loop_stops key_loop 0 (nth_link nextKeyView key_loop 1 (nextKeyView key_loop 0))"
    by (simp only: c1) (simp add: loop_stops_def key_loop_not_hidden)
  have ns: "\<forall>j<2. \<not> loop_stops key_loop 0 (nth_link nextKeyView key_loop j (nextKeyView key_loop 0))"
  proof (intro allI impI)
    fix j :: nat assume "j < 2"
    then have "j = 0 \<or> j = 1" by auto
    with n0 n1 show "\<not> loop_stops key_loop 0 (nth_link nextKeyView key_loop j (nextKeyView key_loop 0))"
      by auto
  qed
  have b: "\<forall>v::vid. (\<lambda>_. 0::nat) v \<le> 0" by simp
  have l: "(nextKeyView, nextValidKeyView) = (nextKeyView, nextValidKeyView)
         \<or> (nextKeyView, nextValidKeyView) = (previousKeyView, previousValidKeyView)" by simp
  have f: "2 + 0 + 2 \<le> (4::nat)" by simp
  from validKeyView_returns_first_stop [OF key_loop_up_ranked b l s2 ns f]
  have "nextValidKeyView 4 key_loop 0 = Return (Some 0)" by (simp add: c2)
  with key_loop_up_ranked s2 n0 n1 show ?thesis by simp
qed

text \<open>
  C7 as stated fails.  On the loop 0, 1, 2, 0 of views that cannot become key view, the
  walk from view 0 comes back to view 0 and \<open>nextValidKeyView\<close> returns view 0 itself, not
  \<open>None\<close>.
\<close>

theorem nextValidKeyView_loop_returns_self:
  "nextKeyView key_loop 0 = Some 1 \<and> nextKeyView key_loop 1 = Some 2
   \<and> nextKeyView key_loop 2 = Some 0
   \<and> canBecomeKeyView 1 key_loop 0 = Return False
   \<and> canBecomeKeyView 1 key_loop 1 = Return False
   \<and> canBecomeKeyView 1 key_loop 2 = Return False
   \<and> nextValidKeyView 4 key_loop 0 = Return (Some 0)
   \<and> nextValidKeyView 4 key_loop 0 \<noteq> Return None"
  by (simp add: nextValidKeyView_def key_loop_fields canBecomeKeyView_def eval_nat_numeral)

text \<open>
  On the chain 0, 1, 2 whose last view points back to view 1, again of views that cannot
  become key view, the walk from view 0 never meets view 0, a chain end or a view that can
  become key view: no depth is enough for \<open>nextValidKeyView\<close> to return.
\<close>

lemma key_lasso_loop_never_returns:
  "t = Some 1 \<or> t = Some 2 \<Longrightarrow> validKeyView_loop nextKeyView n key_lasso 0 t = OutOfFuel"
proof (induction n arbitrary: t)
  case 0
  then show ?case by simp
next
  case (Suc n)
  from Suc.prems show ?case
  proof
    assume t: "t = Some 1"
    have "validKeyView_loop nextKeyView n key_lasso 0 (Some 2) = OutOfFuel"
      by (rule Suc.IH) simp
    then show ?thesis
      by (simp add: t key_lasso_fields canBecomeKeyView_def)
  next
    assume t: "t = Some 2"
    have "validKeyView_loop nextKeyView n key_lasso 0 (Some 1) = OutOfFuel"
      by (rule Suc.IH) simp
    then show ?thesis
      by (simp add: t key_lasso_fields canBecomeKeyView_def)
  qed
qed

lemma nextValidKeyView_lasso_never_returns:
  "nextValidKeyView n key_lasso 0 = OutOfFuel"
  by (simp add: nextValidKeyView_def key_lasso_fields key_lasso_loop_never_returns)

section \<open>Tags of tracking rectangles\<close>











section \<open>Properties of the window decoration\<close>

lemma full_style_bits:
  "full_style AND (NSTitledWindowMask OR NSClosableWindowMask OR NSMiniaturizableWindowMask) \<noteq> 0"
  "full_style AND NSTitledWindowMask \<noteq> 0"
  "full_style AND NSClosableWindowMask \<noteq> 0"
  "full_style AND NSMiniaturizableWindowMask \<noteq> 0"
  "full_style AND NSResizableWindowMask \<noteq> 0"
  by (simp_all add: full_style_def NSTitledWindowMask_def NSClosableWindowMask_def
        NSMiniaturizableWindowMask_def NSResizableWindowMask_def)


lemma updateRects_keeps:
  "hasTitleBar (updateRects theme d) = hasTitleBar d"
  "hasResizeBar (updateRects theme d) = hasResizeBar d"
  "deco_frame (updateRects theme d) = deco_frame d"
  by (simp_all add: updateRects_def Let_def)

lemma updateRects_titleBarRect:
  "titleBarRect (updateRects theme d) =
     (if hasTitleBar d
      then NSMakeRect 0 (size_height (deco_frame d) - titlebarHeight theme)
             (size_width (deco_frame d)) (titlebarHeight theme)
      else titleBarRect d)"
  by (simp add: updateRects_def Let_def)

lemma updateRects_resizeBarRect:
  "resizeBarRect (updateRects theme d) =
     (if hasResizeBar d
      then NSMakeRect 0 0 (size_width (deco_frame d)) (resizebarHeight theme)
      else resizeBarRect d)"
  by (simp add: updateRects_def Let_def)

lemma init_flags:
  "hasTitleBar (initWithFrame_window theme aFrame full_style)"
  "hasResizeBar (initWithFrame_window theme aFrame full_style)"
  "deco_frame (initWithFrame_window theme aFrame full_style) = clamp_size aFrame"
  by (simp_all add: initWithFrame_window_def full_style_bits updateRects_keeps Let_def
        decoration_alloc_def)

text \<open>
  C9.  A decoration view created for a window whose style mask combines titled, closable,
  miniaturizable and resizable, on a frame of width 200: the title bar rectangle has the
  theme's titlebar height, the resize bar rectangle has the theme's resize-bar height, both
  span the full width 200 of the frame, and the title bar rectangle is not empty.  The
  theme's titlebar height is taken to be positive; the same holds after the frame is set
  again to a frame of width 200 (\<open>deco_setFrame\<close> recomputes the rectangles).
\<close>

theorem decoration_rects_full_style:
  assumes "0 < titlebarHeight theme"
    and "size_width aFrame = 200"
    and "d = initWithFrame_window theme aFrame full_style \<or>
         d = deco_setFrame theme (initWithFrame_window theme aFrame0 full_style) aFrame"
  shows "\<not> NSIsEmptyRect (titleBarRect d)
       \<and> NSHeight (titleBarRect d) = titlebarHeight theme
       \<and> NSHeight (resizeBarRect d) = resizebarHeight theme
       \<and> NSMinX (titleBarRect d) = 0 \<and> NSWidth (titleBarRect d) = 200
       \<and> NSMinX (resizeBarRect d) = 0 \<and> NSWidth (resizeBarRect d) = 200
       \<and> NSWidth (deco_frame d) = 200"
proof -
  have w: "size_width (clamp_size aFrame) = 200"
    using assms(2) by (simp add: clamp_size_def Let_def)
  obtain d0 where d: "d = updateRects theme d0" and fl: "hasTitleBar d0" "hasResizeBar d0"
    and fr: "deco_frame d0 = clamp_size aFrame"
  proof (rule disjE [OF assms(3)])
    assume a: "d = initWithFrame_window theme aFrame full_style"
    let ?d0 = "(decoration_alloc aFrame)\<lparr>hasTitleBar := True, isTitled := True,
        hasCloseButton := True, hasMiniaturizeButton := True, hasResizeBar := True\<rparr>"
    have "d = updateRects theme ?d0"
      by (simp add: a initWithFrame_window_def full_style_bits Let_def)
    then show thesis
      by (rule that) (simp_all add: decoration_alloc_def)
  next
    assume a: "d = deco_setFrame theme (initWithFrame_window theme aFrame0 full_style) aFrame"
    show thesis
      by (rule that [of "(initWithFrame_window theme aFrame0 full_style)\<lparr>deco_frame := clamp_size aFrame\<rparr>"])
         (simp_all add: a deco_setFrame_def init_flags)
  qed
  have t: "titleBarRect d = NSMakeRect 0 (size_height (deco_frame d0) - titlebarHeight theme)
             200 (titlebarHeight theme)"
    using fl fr w by (simp add: d updateRects_titleBarRect)
  have r: "resizeBarRect d = NSMakeRect 0 0 200 (resizebarHeight theme)"
    using fl fr w by (simp add: d updateRects_resizeBarRect)
  have f: "deco_frame d = clamp_size aFrame"
    by (simp add: d updateRects_keeps fr)
  show ?thesis
    using assms(1) w f
    by (simp add: t r NSMakeRect_def NSIsEmptyRect_def NSWidth_def NSHeight_def NSMinX_def)
qed

theorem decoration_rects_full_style_witness:
  "(0::real) < titlebarHeight \<lparr>titlebarHeight = 23, resizebarHeight = 9\<rparr>
   \<and> titleBarRect (initWithFrame_window \<lparr>titlebarHeight = 23, resizebarHeight = 9\<rparr>
        (NSMakeRect 50 60 200 100) full_style) = NSMakeRect 0 77 200 23
   \<and> \<not> NSIsEmptyRect (titleBarRect (initWithFrame_window
        \<lparr>titlebarHeight = 23, resizebarHeight = 9\<rparr> (NSMakeRect 50 60 200 100) full_style))
   \<and> NSWidth (resizeBarRect (initWithFrame_window
        \<lparr>titlebarHeight = 23, resizebarHeight = 9\<rparr> (NSMakeRect 50 60 200 100) full_style)) = 200"
proof -
  let ?th = "\<lparr>titlebarHeight = 23, resizebarHeight = 9\<rparr>"
  let ?d = "initWithFrame_window ?th (NSMakeRect 50 60 200 100) full_style"
  have h1: "(0::real) < titlebarHeight ?th" by simp
  have h2: "size_width (NSMakeRect 50 60 200 100) = 200" by (simp add: NSMakeRect_def)
  have h3: "?d = initWithFrame_window ?th (NSMakeRect 50 60 200 100) full_style \<or>
            ?d = deco_setFrame ?th (initWithFrame_window ?th (NSMakeRect 50 60 200 100) full_style)
                   (NSMakeRect 50 60 200 100)" by simp
  note main = decoration_rects_full_style [OF h1 h2 h3]
  have tb: "titleBarRect ?d = NSMakeRect 0 77 200 23"
    by (simp add: initWithFrame_window_def full_style_bits updateRects_titleBarRect
          updateRects_keeps Let_def decoration_alloc_def clamp_size_def NSMakeRect_def)
  show ?thesis using main tb h1 by simp
qed

end
